theory Spec2Isabelle
  imports Main
begin

section \<open>The event publisher of the Python cartridge agent (publisher.py)\<close>

text \<open>
  The module keeps two pieces of process-wide state: the class attributes of \<open>Config\<close>
  (among them the four one-shot flags) and the dictionary \<open>publishers\<close>. Every function
  of the module is modelled as a function from that state to the list of effects it
  performs, in program order, and the state it leaves behind.
\<close>

subsection \<open>Data\<close>

datatype pyerror = ValueError | TypeError | IndexError

datatype level = Debug | Info | Warn | Error

datatype arg = S string | I int | L "string list"

datatype flag = Started | Activated | Maintenance | Ready_to_shutdown

text \<open>
  The event classes of \<open>modules.event.instance.status.events\<close>; each constructor takes
  its arguments in the order in which publisher.py passes them.
\<close>

datatype event =
    InstanceStartedEvent string string string string string string string string
  | InstanceActivatedEvent string string string string string string string
  | InstanceMaintenanceModeEvent string string string string string string string
  | InstanceReadyToShutdownEvent string string string string string string string
  | CompleteTopologyRequestEvent
  | CompleteTenantRequestEvent

text \<open>The attributes of \<open>Config\<close> that publisher.py reads or writes.\<close>

record Config =
  started :: bool
  activated :: bool
  maintenance :: bool
  ready_to_shutdown :: bool
  application_id :: string
  service_name :: string
  cluster_id :: string
  member_id :: string
  instance_id :: string
  cluster_instance_id :: string
  network_partition_id :: string
  partition_id :: string
  listen_address :: string
  ports :: "string list"
  mb_username :: "string option"
  mb_password :: "string option"
  mb_urls :: "string list"
  mb_publisher_timeout :: int

text \<open>
  The names of module \<open>constants\<close> that publisher.py concatenates into topics. The
  module is not part of the sources at hand, so its values are a parameter.
\<close>

record constants =
  INSTANCE_STATUS_TOPIC :: string
  INITIALIZER_TOPIC :: string
  INSTANCE_STARTED_EVENT :: string
  INSTANCE_ACTIVATED_EVENT :: string
  INSTANCE_MAINTENANCE_MODE_EVENT :: string
  INSTANCE_READY_TO_SHUTDOWN_EVENT :: string
  COMPLETE_TOPOLOGY_REQUEST_EVENT :: string
  COMPLETE_TENANT_REQUEST_EVENT :: string

text \<open>
  An \<open>EventPublisher\<close> object: \<open>__init__\<close> stores the topic and
  \<open>int(time.time())\<close>, in seconds.
\<close>

record EventPublisher =
  topic :: string
  start_time :: int

record agent =
  cfg :: Config
  publishers :: "string \<rightharpoonup> EventPublisher"

text \<open>
  What the collaborators outside publisher.py answer during one call: the clock, the two
  properties read through \<open>Config.read_property\<close> (None or a string, which is how
  publisher.py treats them), Python's \<open>int\<close> on a string (None where it raises
  ValueError), the port check of \<open>cartridgeagentutils\<close> and the truth value of what
  \<open>Config.read_property(constants.CEP_PUBLISHER_ENABLED, True)\<close> returns. The
  collaborators are taken to return; the exceptions modelled are those of the statements
  of publisher.py itself.
\<close>

record ext =
  now :: int
  port_check_timeout :: "string option"
  py_int :: "string \<Rightarrow> int option"
  wait_until_ports_active :: "string \<Rightarrow> string list \<Rightarrow> int \<Rightarrow> bool"
  cep_publisher_enabled :: bool
  stats_notifier_interval :: "string option"

type_synonym auth = "(string \<times> string option) option"

text \<open>
  The effects of the module, in the order of the statements that cause them: a line of
  the log with its format string and arguments, the call of
  \<open>wait_until_ports_active\<close>, the construction of an event, a call of
  \<open>get_publisher\<close>, the start of the thread that \<open>EventPublisher.publish\<close> creates for
  \<open>__publish_event\<close>, the start of the statistics publisher, the assignment of True to
  one of the four flags, and, inside a delivery thread, one call of \<open>publish.single\<close>
  with its outcome and one \<open>time.sleep\<close>.
\<close>

datatype effect =
    Log level string "arg list"
  | Wait_ports string "string list" int
  | Construct event
  | Get_publisher string
  | Thread_start EventPublisher event
  | Stats_start int
  | Set_flag flag
  | Publish_single string string string string auth bool
  | Sleep int

subsection \<open>The publisher registry\<close>

definition EventPublisher_init :: "int \<Rightarrow> string \<Rightarrow> EventPublisher" where
  "EventPublisher_init t tp = \<lparr>topic = tp, start_time = t\<rparr>"

text \<open>
  \<open>get_publisher\<close>: a topic that is not a key of the dictionary gets a new publisher,
  stamped with the clock; then the entry under the topic is returned.
\<close>

definition get_publisher :: "int \<Rightarrow> string \<Rightarrow> (string \<rightharpoonup> EventPublisher)
    \<Rightarrow> EventPublisher \<times> (string \<rightharpoonup> EventPublisher)" where
  "get_publisher t tp ps =
     (case ps tp of
        None \<Rightarrow> (let p = EventPublisher_init t tp in (p, ps(tp \<mapsto> p)))
      | Some p \<Rightarrow> (p, ps))"

subsection \<open>The lifecycle events\<close>

definition publish_instance_started_event ::
    "constants \<Rightarrow> ext \<Rightarrow> agent \<Rightarrow> effect list \<times> agent" where
  "publish_instance_started_event K e s =
     (if \<not> started (cfg s) then
        let c = cfg s;
            instance_started_event = InstanceStartedEvent (application_id c) (service_name c)
              (cluster_id c) (cluster_instance_id c) (member_id c) (instance_id c)
              (network_partition_id c) (partition_id c);
            tp = INSTANCE_STATUS_TOPIC K @ INSTANCE_STARTED_EVENT K;
            (publisher, ps) = get_publisher (now e) tp (publishers s)
        in ([Log Info ''Publishing instance started event...'' [],
             Construct instance_started_event,
             Get_publisher tp,
             Thread_start publisher instance_started_event,
             Set_flag Started,
             Log Info ''Instance started event published'' []],
            s\<lparr>cfg := c\<lparr>started := True\<rparr>, publishers := ps\<rparr>)
      else ([Log Warn ''Instance already started'' []], s))"

text \<open>
  The interval of the statistics publisher: the property when it is a non-empty string
  that \<open>int\<close> accepts, 15 seconds otherwise.
\<close>

definition stats_interval :: "ext \<Rightarrow> int" where
  "stats_interval e =
     (let interval_default = 15 in
      case stats_notifier_interval e of
        None \<Rightarrow> interval_default
      | Some interval \<Rightarrow>
          (if length interval > 0 then
             (case py_int e interval of Some n \<Rightarrow> n | None \<Rightarrow> interval_default)
           else interval_default))"

text \<open>
  The port check at the head of the activation: \<open>int\<close> of the timeout property raises
  TypeError on None and ValueError on a string it does not accept; otherwise
  \<open>wait_until_ports_active\<close> answers.
\<close>

definition ports_check :: "ext \<Rightarrow> Config \<Rightarrow> pyerror + (int \<times> bool)" where
  "ports_check e c =
     (case port_check_timeout e of
        None \<Rightarrow> Inl TypeError
      | Some v \<Rightarrow>
          (case py_int e v of
             None \<Rightarrow> Inl ValueError
           | Some n \<Rightarrow> Inr (n, wait_until_ports_active e (listen_address c) (ports c) n)))"

definition publish_instance_activated_event ::
    "constants \<Rightarrow> ext \<Rightarrow> agent \<Rightarrow> effect list \<times> agent \<times> pyerror option" where
  "publish_instance_activated_event K e s =
     (if \<not> activated (cfg s) then
        let c = cfg s in
        case ports_check e c of
          Inl err \<Rightarrow> ([], s, Some err)
        | Inr (n, ports_active) \<Rightarrow>
            (if ports_active then
               let instance_activated_event = InstanceActivatedEvent (service_name c)
                     (cluster_id c) (cluster_instance_id c) (member_id c) (instance_id c)
                     (network_partition_id c) (partition_id c);
                   tp = INSTANCE_STATUS_TOPIC K @ INSTANCE_ACTIVATED_EVENT K;
                   (publisher, ps) = get_publisher (now e) tp (publishers s)
               in ([Wait_ports (listen_address c) (ports c) n,
                    Log Info ''Publishing instance activated event...'' [],
                    Construct instance_activated_event,
                    Get_publisher tp,
                    Thread_start publisher instance_activated_event,
                    Log Info ''Instance activated event published'' [],
                    Log Info ''Starting health statistics notifier'' []]
                   @ (if cep_publisher_enabled e then
                        [Log Info ''Starting Health statistics publisher with interval %r''
                           [I (stats_interval e)],
                         Stats_start (stats_interval e)]
                      else [Log Warn ''Statistics publisher is disabled'' []])
                   @ [Set_flag Activated,
                      Log Info ''Health statistics notifier started'' []],
                   s\<lparr>cfg := c\<lparr>activated := True\<rparr>, publishers := ps\<rparr>, None)
             else
               ([Wait_ports (listen_address c) (ports c) n,
                 Log Error (''Ports activation timed out. Aborting publishing instance ''
                            @ ''activated event [IPAddress] %s [Ports] %s'')
                   [S (listen_address c), L (ports c)]],
                s, None))
      else ([Log Warn ''Instance already activated'' []], s, None))"

definition publish_maintenance_mode_event ::
    "constants \<Rightarrow> ext \<Rightarrow> agent \<Rightarrow> effect list \<times> agent" where
  "publish_maintenance_mode_event K e s =
     (if \<not> maintenance (cfg s) then
        let c = cfg s;
            instance_maintenance_mode_event = InstanceMaintenanceModeEvent (service_name c)
              (cluster_id c) (cluster_instance_id c) (member_id c) (instance_id c)
              (network_partition_id c) (partition_id c);
            tp = INSTANCE_STATUS_TOPIC K @ INSTANCE_MAINTENANCE_MODE_EVENT K;
            (publisher, ps) = get_publisher (now e) tp (publishers s)
        in ([Log Info ''Publishing instance maintenance mode event...'' [],
             Construct instance_maintenance_mode_event,
             Get_publisher tp,
             Thread_start publisher instance_maintenance_mode_event,
             Set_flag Maintenance,
             Log Info ''Instance maintenance mode event published'' []],
            s\<lparr>cfg := c\<lparr>maintenance := True\<rparr>, publishers := ps\<rparr>)
      else ([Log Warn ''Instance already in a maintenance mode'' []], s))"

definition publish_instance_ready_to_shutdown_event ::
    "constants \<Rightarrow> ext \<Rightarrow> agent \<Rightarrow> effect list \<times> agent" where
  "publish_instance_ready_to_shutdown_event K e s =
     (if \<not> ready_to_shutdown (cfg s) then
        let c = cfg s;
            instance_shutdown_event = InstanceReadyToShutdownEvent (service_name c)
              (cluster_id c) (cluster_instance_id c) (member_id c) (instance_id c)
              (network_partition_id c) (partition_id c);
            tp = INSTANCE_STATUS_TOPIC K @ INSTANCE_READY_TO_SHUTDOWN_EVENT K;
            (publisher, ps) = get_publisher (now e) tp (publishers s)
        in ([Log Info ''Publishing instance activated event...'' [],
             Construct instance_shutdown_event,
             Get_publisher tp,
             Thread_start publisher instance_shutdown_event,
             Set_flag Ready_to_shutdown,
             Log Info ''Instance ReadyToShutDown event published'' []],
            s\<lparr>cfg := c\<lparr>ready_to_shutdown := True\<rparr>, publishers := ps\<rparr>)
      else ([Log Warn ''Instance already in a ReadyToShutDown event...'' []], s))"

subsection \<open>The bootstrap requests\<close>

definition publish_complete_topology_request_event ::
    "constants \<Rightarrow> ext \<Rightarrow> agent \<Rightarrow> effect list \<times> agent" where
  "publish_complete_topology_request_event K e s =
     (let complete_topology_request_event = CompleteTopologyRequestEvent;
          tp = INITIALIZER_TOPIC K @ COMPLETE_TOPOLOGY_REQUEST_EVENT K;
          (publisher, ps) = get_publisher (now e) tp (publishers s)
      in ([Construct complete_topology_request_event,
           Get_publisher tp,
           Thread_start publisher complete_topology_request_event,
           Log Info ''Complete topology request event published'' []],
          s\<lparr>publishers := ps\<rparr>))"

definition publish_complete_tenant_request_event ::
    "constants \<Rightarrow> ext \<Rightarrow> agent \<Rightarrow> effect list \<times> agent" where
  "publish_complete_tenant_request_event K e s =
     (let complete_tenant_request_event = CompleteTenantRequestEvent;
          tp = INITIALIZER_TOPIC K @ COMPLETE_TENANT_REQUEST_EVENT K;
          (publisher, ps) = get_publisher (now e) tp (publishers s)
      in ([Construct complete_tenant_request_event,
           Get_publisher tp,
           Thread_start publisher complete_tenant_request_event,
           Log Info ''Complete tenant request event published'' []],
          s\<lparr>publishers := ps\<rparr>))"

text \<open>The number of delivery threads started in a list of effects.\<close>

fun is_thread_start :: "effect \<Rightarrow> bool" where
  "is_thread_start (Thread_start p ev) = True"
| "is_thread_start x = False"

fun spawned :: "effect list \<Rightarrow> nat" where
  "spawned [] = 0"
| "spawned (x # xs) = (if is_thread_start x then Suc (spawned xs) else spawned xs)"

subsection \<open>The delivery task\<close>

text \<open>
  The world of one delivery thread: the serialisation of an event (\<open>to_json\<close>, defined
  with the event classes) and the broker client \<open>paho.mqtt.publish.single\<close>, which for a
  topic, payload, host, port and credentials at a given second either returns (True) or
  raises (False) after some number of seconds.
\<close>

record world =
  to_json :: "event \<Rightarrow> string"
  single :: "string \<Rightarrow> string \<Rightarrow> string \<Rightarrow> string \<Rightarrow> auth \<Rightarrow> int \<Rightarrow> bool \<times> nat"

text \<open>Python's \<open>str.split(sep)\<close> for a separator of one character.\<close>

fun split_on :: "char \<Rightarrow> string \<Rightarrow> string list" where
  "split_on c [] = [[]]"
| "split_on c (x # xs) =
     (if x = c then [] # split_on c xs
      else (case split_on c xs of
              [] \<Rightarrow> [[x]]
            | y # ys \<Rightarrow> (x # y) # ys))"

text \<open>
  Modelled from the spec: \<open>IncrementalCeilingListIterator\<close> of
  \<open>modules.util.cartridgeagentutils\<close>, which is not among the sources. In the mode that
  publisher.py selects, \<open>get_next_retry_interval\<close> returns the duration at the cursor
  and moves the cursor one position on, clamped at the last index. Over an empty
  sequence there is no duration to return: IndexError.
\<close>

record IncrementalCeilingListIterator =
  intervals :: "int list"
  cursor :: nat

definition IncrementalCeilingListIterator_init :: "int list \<Rightarrow> IncrementalCeilingListIterator"
  where "IncrementalCeilingListIterator_init xs = \<lparr>intervals = xs, cursor = 0\<rparr>"

definition get_next_retry_interval ::
    "IncrementalCeilingListIterator \<Rightarrow> pyerror + (int \<times> IncrementalCeilingListIterator)" where
  "get_next_retry_interval it =
     (if intervals it = [] then Inl IndexError
      else
        let i = min (cursor it) (length (intervals it) - 1)
        in Inr (intervals it ! i, it\<lparr>cursor := min (Suc i) (length (intervals it) - 1)\<rparr>))"

datatype sweep_result = Published | Exhausted | Raised pyerror

text \<open>
  The \<open>for mb_url in Config.mb_urls\<close> loop of one sweep, started at second \<open>t\<close>. The
  unpacking of \<open>mb_url.split(":")\<close> stands outside the \<open>try\<close>: a string that does not
  split into exactly two parts raises ValueError out of the loop. The result is the
  effects, the second at which the loop is left, and how it is left.
\<close>

fun for_mb_urls :: "world \<Rightarrow> string \<Rightarrow> string \<Rightarrow> auth \<Rightarrow> string list \<Rightarrow> int
    \<Rightarrow> effect list \<times> int \<times> sweep_result" where
  "for_mb_urls w tp payload au [] t = ([], t, Exhausted)"
| "for_mb_urls w tp payload au (mb_url # rest) t =
     (case split_on CHR '':'' mb_url of
        [mb_ip, mb_port] \<Rightarrow>
          (let (ok, d) = single w tp payload mb_ip mb_port au t;
               t' = t + int d
           in if ok then
                ([Publish_single tp payload mb_ip mb_port au True,
                  Log Debug ''Event published to %s:%s'' [S mb_ip, S mb_port]],
                 t', Published)
              else
                (let (tr, t'', r) = for_mb_urls w tp payload au rest t'
                 in (Publish_single tp payload mb_ip mb_port au False
                     # Log Debug ''Could not publish event to message broker %s:%s.''
                         [S mb_ip, S mb_port]
                     # tr, t'', r)))
      | _ \<Rightarrow> ([], t, Raised ValueError))"

text \<open>
  The \<open>while\<close> loop of \<open>__publish_event\<close>, with the effects so far in \<open>acc\<close>. The loop
  need not end for every iterator (an interval of 0 never moves the clock), so it is a
  partial function: None is a loop that runs forever. \<open>time.sleep\<close> of a negative
  number raises ValueError. The result is the effects, the second at which the task
  ends, and the value returned (True, False) or the exception that ends the thread.
\<close>

partial_function (option) retry_loop :: "world \<Rightarrow> Config \<Rightarrow> EventPublisher \<Rightarrow> string \<Rightarrow> auth
    \<Rightarrow> IncrementalCeilingListIterator \<Rightarrow> int \<Rightarrow> effect list
    \<Rightarrow> (effect list \<times> int \<times> (pyerror + bool)) option" where
  "retry_loop w c self payload au it t acc =
     (if t - start_time self < mb_publisher_timeout c * 1000 then
        (case get_next_retry_interval it of
           Inl err \<Rightarrow> Some (acc, t, Inl err)
         | Inr (retry_interval, it') \<Rightarrow>
             (case for_mb_urls w (topic self) payload au (mb_urls c) t of
                (tr, t', Published) \<Rightarrow> Some (acc @ tr, t', Inr True)
              | (tr, t', Raised err) \<Rightarrow> Some (acc @ tr, t', Inl err)
              | (tr, t', Exhausted) \<Rightarrow>
                  (let lg = Log Debug (''Could not publish event to any of the provided ''
                              @ ''message brokers. Retrying in %s seconds.'') [I retry_interval]
                   in if retry_interval < 0 then Some (acc @ tr @ [lg], t', Inl ValueError)
                      else retry_loop w c self payload au it' (t' + retry_interval)
                             (acc @ tr @ [lg, Sleep retry_interval]))))
      else
        Some (acc @ [Log Warn (''Could not publish even to any of the provided message brokers ''
                       @ ''before the timeout [%s] exceeded. The event will be dropped.'')
                       [I (mb_publisher_timeout c)]],
              t, Inr False))"

definition retry_intervals :: "int list" where
  "retry_intervals = [2, 2, 5, 5, 10, 10, 20, 20, 30, 30, 40, 40, 50, 50, 60]"

text \<open>
  \<open>EventPublisher.__publish_event\<close>, run by the thread that \<open>publish\<close> starts, from
  second \<open>t\<close> on.
\<close>

definition publish_event :: "world \<Rightarrow> Config \<Rightarrow> EventPublisher \<Rightarrow> event \<Rightarrow> int
    \<Rightarrow> (effect list \<times> int \<times> (pyerror + bool)) option" where
  "publish_event w c self ev t =
     (let au = (case mb_username c of
                  None \<Rightarrow> None
                | Some u \<Rightarrow> Some (u, mb_password c));
          payload = to_json w ev;
          retry_iterator = IncrementalCeilingListIterator_init retry_intervals
      in retry_loop w c self payload au retry_iterator t [])"

subsection \<open>Sequences of calls and the order of effects\<close>

text \<open>Calls of one function of the module made one after the other, each with its own answers of the collaborators.\<close>

fun calls :: "(ext \<Rightarrow> agent \<Rightarrow> effect list \<times> agent) \<Rightarrow> ext list \<Rightarrow> agent
    \<Rightarrow> effect list \<times> agent" where
  "calls f [] s = ([], s)"
| "calls f (e # es) s =
     (let (tr, s') = f e s; (tr', s'') = calls f es s' in (tr @ tr', s''))"

text \<open>\<open>precedes a b tr\<close>: effect \<open>a\<close> occurs in \<open>tr\<close>, and no \<open>b\<close> stands before the first \<open>a\<close>.\<close>

fun precedes :: "effect \<Rightarrow> effect \<Rightarrow> effect list \<Rightarrow> bool" where
  "precedes a b [] = False"
| "precedes a b (x # xs) = (if x = b then False else if x = a then True else precedes a b xs)"

definition drop_warning :: "Config \<Rightarrow> effect" where
  "drop_warning c =
     Log Warn (''Could not publish even to any of the provided message brokers ''
               @ ''before the timeout [%s] exceeded. The event will be dropped.'')
       [I (mb_publisher_timeout c)]"

subsection \<open>Sample inputs\<close>

text \<open>An instance of \<open>int\<close> on strings of decimal digits.\<close>

definition decimal :: "string \<Rightarrow> int option" where
  "decimal s =
     (if s \<noteq> [] \<and> list_all (\<lambda>ch. 48 \<le> (of_char ch :: nat) \<and> (of_char ch :: nat) \<le> 57) s
      then Some (foldl (\<lambda>a ch. 10 * a + (int (of_char ch) - 48)) 0 s)
      else None)"

definition K0 :: constants where
  "K0 = \<lparr>INSTANCE_STATUS_TOPIC = ''instance/status/'',
         INITIALIZER_TOPIC = ''initializer/'',
         INSTANCE_STARTED_EVENT = ''InstanceStartedEvent'',
         INSTANCE_ACTIVATED_EVENT = ''InstanceActivatedEvent'',
         INSTANCE_MAINTENANCE_MODE_EVENT = ''InstanceMaintenanceModeEvent'',
         INSTANCE_READY_TO_SHUTDOWN_EVENT = ''InstanceReadyToShutdownEvent'',
         COMPLETE_TOPOLOGY_REQUEST_EVENT = ''CompleteTopologyRequestEvent'',
         COMPLETE_TENANT_REQUEST_EVENT = ''CompleteTenantRequestEvent''\<rparr>"

definition Config0 :: Config where
  "Config0 = \<lparr>started = False, activated = False, maintenance = False,
     ready_to_shutdown = False,
     application_id = ''app'', service_name = ''php'', cluster_id = ''c1'',
     member_id = ''m1'', instance_id = ''i1'', cluster_instance_id = ''ci1'',
     network_partition_id = ''np1'', partition_id = ''p1'',
     listen_address = ''localhost'', ports = [''80''],
     mb_username = None, mb_password = None,
     mb_urls = [''A:1883'', ''B:1883''], mb_publisher_timeout = 1\<rparr>"

definition agent0 :: agent where
  "agent0 = \<lparr>cfg = Config0, publishers = Map.empty\<rparr>"

definition agent1 :: agent where
  "agent1 = \<lparr>cfg = Config0\<lparr>started := True, activated := True, maintenance := True,
                 ready_to_shutdown := True\<rparr>,
             publishers = Map.empty\<rparr>"

definition ext_up :: ext where
  "ext_up = \<lparr>now = 100, port_check_timeout = Some ''600'', py_int = decimal,
     wait_until_ports_active = (\<lambda>a ps n. True), cep_publisher_enabled = True,
     stats_notifier_interval = None\<rparr>"

definition ext_down :: ext where
  "ext_down = \<lparr>now = 50, port_check_timeout = Some ''600'', py_int = decimal,
     wait_until_ports_active = (\<lambda>a ps n. False), cep_publisher_enabled = True,
     stats_notifier_interval = None\<rparr>"

definition pub0 :: EventPublisher where
  "pub0 = \<lparr>topic = ''initializer/CompleteTopologyRequestEvent'', start_time = 0\<rparr>"

text \<open>Brokers that refuse every attempt, and brokers of which only host B accepts.\<close>

definition world_down :: world where
  "world_down = \<lparr>to_json = (\<lambda>ev. ''{}''), single = (\<lambda>tp pl h p au t. (False, 0))\<rparr>"

definition world_B :: world where
  "world_B = \<lparr>to_json = (\<lambda>ev. ''{}''), single = (\<lambda>tp pl h p au t. (h = ''B'', 0))\<rparr>"

subsection \<open>Reading the effects of a delivery task\<close>

text \<open>The broker attempts in a list of effects, as host, port and outcome, and the sleeps.\<close>

fun attempts :: "effect list \<Rightarrow> (string \<times> string \<times> bool) list" where
  "attempts [] = []"
| "attempts (Publish_single tp pl h p au ok # xs) = (h, p, ok) # attempts xs"
| "attempts (x # xs) = attempts xs"

fun sleeps :: "effect list \<Rightarrow> int list" where
  "sleeps [] = []"
| "sleeps (Sleep d # xs) = d # sleeps xs"
| "sleeps (x # xs) = sleeps xs"

fun is_warning :: "effect \<Rightarrow> bool" where
  "is_warning (Log Warn m as) = True"
| "is_warning x = False"

text \<open>Some attempt in the list was accepted.\<close>

fun succeeded :: "effect list \<Rightarrow> bool" where
  "succeeded [] = False"
| "succeeded (Publish_single tp pl h p au ok # xs) = (ok \<or> succeeded xs)"
| "succeeded (x # xs) = succeeded xs"

text \<open>
  The first accepted attempt, if there is one, is followed by its debug line and by
  nothing else: no further attempt, no sleep, no warning.
\<close>

fun success_is_final :: "effect list \<Rightarrow> bool" where
  "success_is_final [] = True"
| "success_is_final (Publish_single tp pl h p au ok # xs) =
     (if ok then xs = [Log Debug ''Event published to %s:%s'' [S h, S p]]
      else success_is_final xs)"
| "success_is_final (x # xs) = success_is_final xs"

text \<open>Every refused attempt is followed at once by its debug line.\<close>

fun failures_logged :: "effect list \<Rightarrow> bool" where
  "failures_logged [] = True"
| "failures_logged (Publish_single tp pl h p au ok # xs) =
     (if ok then failures_logged xs
      else (case xs of
              [] \<Rightarrow> False
            | y # ys \<Rightarrow>
                y = Log Debug ''Could not publish event to message broker %s:%s.'' [S h, S p]
                \<and> failures_logged ys))"
| "failures_logged (x # xs) = failures_logged xs"

text \<open>
  No sweep is cut short: with \<open>k\<close> attempts made since the last sleep, every sleep in
  the list comes only after all \<open>n\<close> endpoints have been attempted.
\<close>

fun sweeps_complete :: "nat \<Rightarrow> nat \<Rightarrow> effect list \<Rightarrow> bool" where
  "sweeps_complete n k [] = True"
| "sweeps_complete n k (Sleep d # xs) = (k = n \<and> sweeps_complete n 0 xs)"
| "sweeps_complete n k (Publish_single tp pl h p au ok # xs) = sweeps_complete n (Suc k) xs"
| "sweeps_complete n k (x # xs) = sweeps_complete n k xs"

text \<open>A broker URL that \<open>split(":")\<close> cuts into exactly two parts.\<close>

definition host_port :: "string \<Rightarrow> bool" where
  "host_port u = (case split_on CHR '':'' u of [h, p] \<Rightarrow> True | _ \<Rightarrow> False)"


text \<open>An iterator over a non-empty list of positive durations.\<close>

definition pos_iterator :: "IncrementalCeilingListIterator \<Rightarrow> bool" where
  "pos_iterator it = (intervals it \<noteq> [] \<and> list_all (\<lambda>x. 0 < x) (intervals it))"

definition retry_log :: "int \<Rightarrow> effect" where
  "retry_log d =
     Log Debug (''Could not publish event to any of the provided ''
                @ ''message brokers. Retrying in %s seconds.'') [I d]"

text \<open>
  The effects of the task of \<open>pub0\<close> when broker A refuses and broker B accepts, and when
  both refuse in the last second before the deadline.
\<close>

definition trace_AB :: "effect list" where
  "trace_AB =
     [Publish_single ''initializer/CompleteTopologyRequestEvent'' ''{}'' ''A'' ''1883'' None False,
      Log Debug ''Could not publish event to message broker %s:%s.'' [S ''A'', S ''1883''],
      Publish_single ''initializer/CompleteTopologyRequestEvent'' ''{}'' ''B'' ''1883'' None True,
      Log Debug ''Event published to %s:%s'' [S ''B'', S ''1883'']]"

definition trace_down :: "effect list" where
  "trace_down =
     [Publish_single ''initializer/CompleteTopologyRequestEvent'' ''{}'' ''A'' ''1883'' None False,
      Log Debug ''Could not publish event to message broker %s:%s.'' [S ''A'', S ''1883''],
      Publish_single ''initializer/CompleteTopologyRequestEvent'' ''{}'' ''B'' ''1883'' None False,
      Log Debug ''Could not publish event to message broker %s:%s.'' [S ''B'', S ''1883''],
      retry_log 2, Sleep 2, drop_warning Config0]"

text \<open>
  The hand-offs in a list of effects (which publisher's thread was started with which
  event) and the topics looked up through \<open>get_publisher\<close>.
\<close>

fun handoffs :: "effect list \<Rightarrow> (EventPublisher \<times> event) list" where
  "handoffs [] = []"
| "handoffs (Thread_start p ev # xs) = (p, ev) # handoffs xs"
| "handoffs (x # xs) = handoffs xs"

fun lookups :: "effect list \<Rightarrow> string list" where
  "lookups [] = []"
| "lookups (Get_publisher tp # xs) = tp # lookups xs"
| "lookups (x # xs) = lookups xs"

subsection \<open>Calls of \<open>get_publisher\<close> from several threads\<close>

text \<open>
  \<open>get_publisher\<close> takes no lock, so calls made from several threads run their
  statements interleaved. Each thread is at one of the three statements of the function
  or has left it: the test \<open>topic not in publishers\<close> (line 204), the construction and
  store \<open>publishers[topic] = EventPublisher(topic)\<close> (line 205, taken as one step), the
  \<open>return publishers[topic]\<close> (line 207). Publishers are objects with an identity: the
  dictionary maps a topic to the index of an object in the list of the objects
  constructed so far.
\<close>

datatype pc = At_test | At_store | At_return | Returned nat | Raised_KeyError

record race =
  registry :: "string \<rightharpoonup> nat"
  objects :: "EventPublisher list"
  pcs :: "pc list"

text \<open>
  One statement of thread \<open>i\<close>, executed at second \<open>t\<close>, all threads calling with topic
  \<open>tp\<close>. A thread that has left the function does nothing more.
\<close>

definition step :: "string \<Rightarrow> nat \<times> int \<Rightarrow> race \<Rightarrow> race" where
  "step tp x s =
     (let i = fst x; t = snd x in
      if i < length (pcs s) then
        (case pcs s ! i of
           At_test \<Rightarrow>
             s\<lparr>pcs := (pcs s)[i := (if registry s tp = None then At_store else At_return)]\<rparr>
         | At_store \<Rightarrow>
             s\<lparr>registry := (registry s)(tp \<mapsto> length (objects s)),
               objects := objects s @ [EventPublisher_init t tp],
               pcs := (pcs s)[i := At_return]\<rparr>
         | At_return \<Rightarrow>
             (case registry s tp of
                None \<Rightarrow> s\<lparr>pcs := (pcs s)[i := Raised_KeyError]\<rparr>
              | Some a \<Rightarrow> s\<lparr>pcs := (pcs s)[i := Returned a]\<rparr>)
         | Returned a \<Rightarrow> s
         | Raised_KeyError \<Rightarrow> s)
      else s)"

text \<open>A schedule names, step by step, the thread that runs next and the second on the clock.\<close>

fun run :: "string \<Rightarrow> (nat \<times> int) list \<Rightarrow> race \<Rightarrow> race" where
  "run tp [] s = s"
| "run tp (x # xs) s = run tp xs (step tp x s)"

definition race_init :: "nat \<Rightarrow> race" where
  "race_init n = \<lparr>registry = Map.empty, objects = [], pcs = replicate n At_test\<rparr>"

text \<open>The schedule in which the calls do not overlap: each runs its three statements in one piece.\<close>

fun serial :: "(nat \<times> int) list \<Rightarrow> (nat \<times> int) list" where
  "serial [] = []"
| "serial (x # xs) = x # x # x # serial xs"

text \<open>
  The dictionary is sound for topic \<open>tp\<close>: its entry, if any, is an object that was
  constructed, with that topic; every thread about to return finds an entry; every value
  returned is such an object; no thread has raised KeyError.
\<close>

fun pc_sound :: "string \<Rightarrow> race \<Rightarrow> pc \<Rightarrow> bool" where
  "pc_sound tp s At_return = (registry s tp \<noteq> None)"
| "pc_sound tp s (Returned a) = (a < length (objects s) \<and> topic (objects s ! a) = tp)"
| "pc_sound tp s Raised_KeyError = False"
| "pc_sound tp s p = True"

definition registry_sound :: "string \<Rightarrow> race \<Rightarrow> bool" where
  "registry_sound tp s =
     ((case registry s tp of
         None \<Rightarrow> True
       | Some a \<Rightarrow> a < length (objects s) \<and> topic (objects s ! a) = tp)
      \<and> list_all (pc_sound tp s) (pcs s))"

text \<open>The dictionary as \<open>get_publisher\<close> sees it: from topics to the publishers themselves.\<close>

definition published :: "race \<Rightarrow> (string \<rightharpoonup> EventPublisher)" where
  "published s = (\<lambda>k. map_option (\<lambda>a. objects s ! a) (registry s k))"

definition race_schedule :: "(nat \<times> int) list" where
  "race_schedule = [(0, 100), (1, 100), (0, 101), (0, 101), (1, 102), (1, 102)]"

section \<open>Properties\<close>

subsection \<open>Auxiliary facts\<close>

lemma spawned_append: "spawned (xs @ ys) = spawned xs + spawned ys"
  by (induction xs) auto

lemma decimal_600: "decimal ''600'' = Some 600"
  by (simp add: decimal_def)

lemma ports_check_up: "ports_check ext_up c = Inr (600, True)"
  by (simp add: ports_check_def ext_up_def decimal_600)

lemma ports_check_down: "ports_check ext_down c = Inr (600, False)"
  by (simp add: ports_check_def ext_down_def decimal_600)

lemma calls_spawned:
  assumes "\<And>e s. spawned (fst (f e s)) = 1"
  shows "spawned (fst (calls f es s)) = length es"
proof (induction es arbitrary: s)
  case Nil
  then show ?case by simp
next
  case (Cons e es)
  obtain tr s' where a: "f e s = (tr, s')" by (cases "f e s")
  obtain tr' s'' where b: "calls f es s' = (tr', s'')" by (cases "calls f es s'")
  have "spawned tr = 1" using assms[of e s] a by simp
  moreover have "spawned tr' = length es" using Cons.IH[of s'] b by simp
  ultimately show ?case using a b by (simp add: spawned_append)
qed

lemma calls_count:
  assumes "\<And>e s. count_list (fst (f e s)) x = 1"
  shows "count_list (fst (calls f es s)) x = length es"
proof (induction es arbitrary: s)
  case Nil
  then show ?case by simp
next
  case (Cons e es)
  obtain tr s' where a: "f e s = (tr, s')" by (cases "f e s")
  obtain tr' s'' where b: "calls f es s' = (tr', s'')" by (cases "calls f es s'")
  have "count_list tr x = 1" using assms[of e s] a by simp
  moreover have "count_list tr' x = length es" using Cons.IH[of s'] b by simp
  ultimately show ?case using a b by simp
qed

lemma started_noop: "started (cfg s) \<Longrightarrow>
   publish_instance_started_event K e s = ([Log Warn ''Instance already started'' []], s)"
  by (simp add: publish_instance_started_event_def)

lemma started_first: "\<not> started (cfg s) \<Longrightarrow>
   spawned (fst (publish_instance_started_event K e s)) = 1
   \<and> started (cfg (snd (publish_instance_started_event K e s)))"
  by (simp add: publish_instance_started_event_def Let_def split: prod.splits)

lemma started_twice: "\<not> started (cfg s) \<Longrightarrow>
   spawned (fst (publish_instance_started_event K e s))
   + spawned (fst (publish_instance_started_event K e'
                     (snd (publish_instance_started_event K e s)))) = 1"
  using started_first[of s K e] started_noop[of "snd (publish_instance_started_event K e s)" K e']
  by simp

lemma maintenance_noop: "maintenance (cfg s) \<Longrightarrow>
   publish_maintenance_mode_event K e s
     = ([Log Warn ''Instance already in a maintenance mode'' []], s)"
  by (simp add: publish_maintenance_mode_event_def)

lemma maintenance_first: "\<not> maintenance (cfg s) \<Longrightarrow>
   spawned (fst (publish_maintenance_mode_event K e s)) = 1
   \<and> maintenance (cfg (snd (publish_maintenance_mode_event K e s)))"
  by (simp add: publish_maintenance_mode_event_def Let_def split: prod.splits)

lemma maintenance_twice: "\<not> maintenance (cfg s) \<Longrightarrow>
   spawned (fst (publish_maintenance_mode_event K e s))
   + spawned (fst (publish_maintenance_mode_event K e'
                     (snd (publish_maintenance_mode_event K e s)))) = 1"
  using maintenance_first[of s K e]
    maintenance_noop[of "snd (publish_maintenance_mode_event K e s)" K e']
  by simp

lemma ready_noop: "ready_to_shutdown (cfg s) \<Longrightarrow>
   publish_instance_ready_to_shutdown_event K e s
     = ([Log Warn ''Instance already in a ReadyToShutDown event...'' []], s)"
  by (simp add: publish_instance_ready_to_shutdown_event_def)

lemma ready_first: "\<not> ready_to_shutdown (cfg s) \<Longrightarrow>
   spawned (fst (publish_instance_ready_to_shutdown_event K e s)) = 1
   \<and> ready_to_shutdown (cfg (snd (publish_instance_ready_to_shutdown_event K e s)))"
  by (simp add: publish_instance_ready_to_shutdown_event_def Let_def split: prod.splits)

lemma ready_twice: "\<not> ready_to_shutdown (cfg s) \<Longrightarrow>
   spawned (fst (publish_instance_ready_to_shutdown_event K e s))
   + spawned (fst (publish_instance_ready_to_shutdown_event K e'
                     (snd (publish_instance_ready_to_shutdown_event K e s)))) = 1"
  using ready_first[of s K e]
    ready_noop[of "snd (publish_instance_ready_to_shutdown_event K e s)" K e']
  by simp

lemma activated_noop: "activated (cfg s) \<Longrightarrow>
   publish_instance_activated_event K e s
     = ([Log Warn ''Instance already activated'' []], s, None)"
  by (simp add: publish_instance_activated_event_def)

lemma activated_first:
  "\<not> activated (cfg s) \<Longrightarrow> ports_check e (cfg s) = Inr (n, True) \<Longrightarrow>
   spawned (fst (publish_instance_activated_event K e s)) = 1
   \<and> count_list (fst (publish_instance_activated_event K e s)) (Set_flag Activated) = 1
   \<and> activated (cfg (fst (snd (publish_instance_activated_event K e s))))
   \<and> snd (snd (publish_instance_activated_event K e s)) = None"
  by (simp add: publish_instance_activated_event_def Let_def spawned_append split: prod.splits)

lemma activated_abort:
  "\<not> activated (cfg s) \<Longrightarrow> ports_check e (cfg s) = Inr (n, False) \<Longrightarrow>
   publish_instance_activated_event K e s =
     ([Wait_ports (listen_address (cfg s)) (ports (cfg s)) n,
       Log Error (''Ports activation timed out. Aborting publishing instance ''
                  @ ''activated event [IPAddress] %s [Ports] %s'')
         [S (listen_address (cfg s)), L (ports (cfg s))]], s, None)"
  by (simp add: publish_instance_activated_event_def Let_def)

lemma activated_spawn_le: "spawned (fst (publish_instance_activated_event K e s)) \<le> 1"
  by (simp add: publish_instance_activated_event_def Let_def spawned_append
      split: prod.splits sum.splits)

lemma activated_spawn_flag:
  "spawned (fst (publish_instance_activated_event K e s)) = 1 \<Longrightarrow>
   activated (cfg (fst (snd (publish_instance_activated_event K e s))))"
  by (auto simp add: publish_instance_activated_event_def Let_def spawned_append
      split: prod.splits sum.splits if_splits)

lemma activated_twice_le:
  "spawned (fst (publish_instance_activated_event K e s))
   + spawned (fst (publish_instance_activated_event K e'
                     (fst (snd (publish_instance_activated_event K e s))))) \<le> 1"
proof (cases "spawned (fst (publish_instance_activated_event K e s)) = 1")
  case True
  then have "activated (cfg (fst (snd (publish_instance_activated_event K e s))))"
    by (rule activated_spawn_flag)
  then have "spawned (fst (publish_instance_activated_event K e'
                     (fst (snd (publish_instance_activated_event K e s))))) = 0"
    by (simp add: activated_noop)
  with True show ?thesis by simp
next
  case False
  with activated_spawn_le[of K e s]
  have "spawned (fst (publish_instance_activated_event K e s)) = 0" by simp
  with activated_spawn_le[of K e' "fst (snd (publish_instance_activated_event K e s))"]
  show ?thesis by simp
qed

lemma activated_twice:
  assumes "\<not> activated (cfg s)" and "ports_check e (cfg s) = Inr (n, True)"
  shows "spawned (fst (publish_instance_activated_event K e s))
   + spawned (fst (publish_instance_activated_event K e'
                     (fst (snd (publish_instance_activated_event K e s))))) = 1"
  using activated_first[OF assms, of K]
    activated_noop[of "fst (snd (publish_instance_activated_event K e s))" K e']
  by simp

subsection \<open>The publisher registry\<close>

text \<open>
  C6: \<open>get_publisher\<close> builds and stores a publisher, stamped with the clock, only when
  the topic has no entry yet; a second call with the same topic, at whatever later time,
  returns the same publisher (same topic, same \<open>start_time\<close>) and leaves the dictionary as
  the first call left it.
\<close>

theorem get_publisher_stable:
  "fst (get_publisher t2 tp (snd (get_publisher t1 tp ps))) = fst (get_publisher t1 tp ps)
   \<and> snd (get_publisher t2 tp (snd (get_publisher t1 tp ps))) = snd (get_publisher t1 tp ps)
   \<and> (tp \<notin> dom ps \<longrightarrow> get_publisher t1 tp ps
          = (\<lparr>topic = tp, start_time = t1\<rparr>, ps(tp \<mapsto> \<lparr>topic = tp, start_time = t1\<rparr>)))
   \<and> (\<forall>p. ps tp = Some p \<longrightarrow> get_publisher t1 tp ps = (p, ps))"
  by (auto simp: get_publisher_def EventPublisher_init_def Let_def split: option.splits)

text \<open>
  Witness for C6: the first call for topic \<open>''t''\<close> at second 100 stores a publisher
  stamped 100; the call at second 200 finds it and returns it, stamp unchanged.
\<close>

theorem get_publisher_stable_witness:
  "''t'' \<notin> dom (Map.empty :: string \<rightharpoonup> EventPublisher)
   \<and> get_publisher 100 ''t'' Map.empty
       = (\<lparr>topic = ''t'', start_time = 100\<rparr>, [''t'' \<mapsto> \<lparr>topic = ''t'', start_time = 100\<rparr>])
   \<and> [''t'' \<mapsto> \<lparr>topic = ''t'', start_time = 100\<rparr>] ''t''
       = Some \<lparr>topic = ''t'', start_time = 100\<rparr>
   \<and> get_publisher 200 ''t'' [''t'' \<mapsto> \<lparr>topic = ''t'', start_time = 100\<rparr>]
       = (\<lparr>topic = ''t'', start_time = 100\<rparr>, [''t'' \<mapsto> \<lparr>topic = ''t'', start_time = 100\<rparr>])"
proof -
  have a: "''t'' \<notin> dom (Map.empty :: string \<rightharpoonup> EventPublisher)" by simp
  have b: "[''t'' \<mapsto> \<lparr>topic = ''t'', start_time = 100\<rparr>] ''t''
             = Some \<lparr>topic = ''t'', start_time = (100::int)\<rparr>" by simp
  from get_publisher_stable[of 200 "''t''" 100 Map.empty] a
  have c: "get_publisher 100 ''t'' Map.empty
       = (\<lparr>topic = ''t'', start_time = 100\<rparr>, [''t'' \<mapsto> \<lparr>topic = ''t'', start_time = 100\<rparr>])"
    by blast
  from get_publisher_stable[of 0 "''t''" 200 "[''t'' \<mapsto> \<lparr>topic = ''t'', start_time = 100\<rparr>]"] b
  have d: "get_publisher 200 ''t'' [''t'' \<mapsto> \<lparr>topic = ''t'', start_time = 100\<rparr>]
       = (\<lparr>topic = ''t'', start_time = 100\<rparr>, [''t'' \<mapsto> \<lparr>topic = ''t'', start_time = 100\<rparr>])"
    by blast
  from a b c d show ?thesis by blast
qed

subsection \<open>The one-shot flags\<close>

text \<open>
  Counterexample to C2 as stated: while the port check fails, two calls of
  \<open>publish_instance_activated_event\<close> in a row, from a state whose flag is unset, start no
  delivery thread at all, not one.
\<close>

theorem activated_twice_ports_down_counterexample:
  "\<not> activated (cfg agent0)
   \<and> spawned (fst (publish_instance_activated_event K0 ext_down agent0))
     + spawned (fst (publish_instance_activated_event K0 ext_down
                       (fst (snd (publish_instance_activated_event K0 ext_down agent0))))) = 0"
proof -
  have a: "\<not> activated (cfg agent0)" by (simp add: agent0_def Config0_def)
  note b = activated_abort[OF a ports_check_down, of K0]
  show ?thesis using a by (simp add: b)
qed

text \<open>
  C2, amended: for each of the four lifecycle events, once the flag is set the publish
  function only logs a warning: no event, no publisher lookup, no thread, state
  unchanged. Two calls in a row from an unset flag start exactly one delivery thread for
  started, maintenance and ready-to-shutdown; for activated they start exactly one when
  the port check of the first call succeeds, and never more than one.
\<close>

theorem lifecycle_one_shot:
  "(started (cfg s) \<longrightarrow>
      publish_instance_started_event K e s = ([Log Warn ''Instance already started'' []], s))
   \<and> (activated (cfg s) \<longrightarrow>
      publish_instance_activated_event K e s
        = ([Log Warn ''Instance already activated'' []], s, None))
   \<and> (maintenance (cfg s) \<longrightarrow>
      publish_maintenance_mode_event K e s
        = ([Log Warn ''Instance already in a maintenance mode'' []], s))
   \<and> (ready_to_shutdown (cfg s) \<longrightarrow>
      publish_instance_ready_to_shutdown_event K e s
        = ([Log Warn ''Instance already in a ReadyToShutDown event...'' []], s))
   \<and> (\<not> started (cfg s) \<longrightarrow>
      spawned (fst (publish_instance_started_event K e s))
      + spawned (fst (publish_instance_started_event K e'
                        (snd (publish_instance_started_event K e s)))) = 1)
   \<and> (\<not> maintenance (cfg s) \<longrightarrow>
      spawned (fst (publish_maintenance_mode_event K e s))
      + spawned (fst (publish_maintenance_mode_event K e'
                        (snd (publish_maintenance_mode_event K e s)))) = 1)
   \<and> (\<not> ready_to_shutdown (cfg s) \<longrightarrow>
      spawned (fst (publish_instance_ready_to_shutdown_event K e s))
      + spawned (fst (publish_instance_ready_to_shutdown_event K e'
                        (snd (publish_instance_ready_to_shutdown_event K e s)))) = 1)
   \<and> (\<not> activated (cfg s) \<and> ports_check e (cfg s) = Inr (n, True) \<longrightarrow>
      spawned (fst (publish_instance_activated_event K e s))
      + spawned (fst (publish_instance_activated_event K e'
                        (fst (snd (publish_instance_activated_event K e s))))) = 1)
   \<and> spawned (fst (publish_instance_activated_event K e s))
      + spawned (fst (publish_instance_activated_event K e'
                        (fst (snd (publish_instance_activated_event K e s))))) \<le> 1"
  using started_noop[of s K e] activated_noop[of s K e] maintenance_noop[of s K e]
    ready_noop[of s K e] started_twice[of s K e e'] maintenance_twice[of s K e e']
    ready_twice[of s K e e'] activated_twice[of s e n K e'] activated_twice_le[of K e s e']
  by blast

text \<open>
  Witness for C2: with every flag set (\<open>agent1\<close>) each function only warns; from
  \<open>agent0\<close>, whose flags are unset and whose ports answer, each pair of calls starts one
  thread.
\<close>

theorem lifecycle_one_shot_witness:
  "started (cfg agent1) \<and> activated (cfg agent1) \<and> maintenance (cfg agent1)
   \<and> ready_to_shutdown (cfg agent1)
   \<and> publish_instance_started_event K0 ext_up agent1
       = ([Log Warn ''Instance already started'' []], agent1)
   \<and> publish_instance_activated_event K0 ext_up agent1
       = ([Log Warn ''Instance already activated'' []], agent1, None)
   \<and> publish_maintenance_mode_event K0 ext_up agent1
       = ([Log Warn ''Instance already in a maintenance mode'' []], agent1)
   \<and> publish_instance_ready_to_shutdown_event K0 ext_up agent1
       = ([Log Warn ''Instance already in a ReadyToShutDown event...'' []], agent1)
   \<and> \<not> started (cfg agent0) \<and> \<not> activated (cfg agent0) \<and> \<not> maintenance (cfg agent0)
   \<and> \<not> ready_to_shutdown (cfg agent0)
   \<and> ports_check ext_up (cfg agent0) = Inr (600, True)
   \<and> spawned (fst (publish_instance_started_event K0 ext_up agent0))
      + spawned (fst (publish_instance_started_event K0 ext_up
                        (snd (publish_instance_started_event K0 ext_up agent0)))) = 1
   \<and> spawned (fst (publish_maintenance_mode_event K0 ext_up agent0))
      + spawned (fst (publish_maintenance_mode_event K0 ext_up
                        (snd (publish_maintenance_mode_event K0 ext_up agent0)))) = 1
   \<and> spawned (fst (publish_instance_ready_to_shutdown_event K0 ext_up agent0))
      + spawned (fst (publish_instance_ready_to_shutdown_event K0 ext_up
                        (snd (publish_instance_ready_to_shutdown_event K0 ext_up agent0)))) = 1
   \<and> spawned (fst (publish_instance_activated_event K0 ext_up agent0))
      + spawned (fst (publish_instance_activated_event K0 ext_up
                        (fst (snd (publish_instance_activated_event K0 ext_up agent0))))) = 1"
proof -
  have f1: "started (cfg agent1) \<and> activated (cfg agent1) \<and> maintenance (cfg agent1)
            \<and> ready_to_shutdown (cfg agent1)"
    by (simp add: agent1_def)
  have f0: "\<not> started (cfg agent0) \<and> \<not> activated (cfg agent0) \<and> \<not> maintenance (cfg agent0)
            \<and> \<not> ready_to_shutdown (cfg agent0)"
    by (simp add: agent0_def Config0_def)
  have pc: "ports_check ext_up (cfg agent0) = Inr (600, True)"
    by (rule ports_check_up)
  from f1 f0 pc lifecycle_one_shot[of agent1 K0 ext_up ext_up 600]
    lifecycle_one_shot[of agent0 K0 ext_up ext_up 600]
  show ?thesis by blast
qed

subsection \<open>The activation\<close>



text \<open>
  Counterexample to C3 as stated: with the statistics publisher enabled, the start of
  the statistics task stands before the write of the activated flag among the effects of
  \<open>publish_instance_activated_event\<close>.
\<close>

theorem stats_start_before_flag_counterexample:
  "precedes (Stats_start 15) (Set_flag Activated)
     (fst (publish_instance_activated_event K0 ext_up agent0))
   \<and> Set_flag Activated \<in> set (fst (publish_instance_activated_event K0 ext_up agent0))"
proof -
  have a: "\<not> activated (cfg agent0)" by (simp add: agent0_def Config0_def)
  have b: "stats_interval ext_up = 15" by (simp add: stats_interval_def ext_up_def)
  have c: "cep_publisher_enabled ext_up" by (simp add: ext_up_def)
  show ?thesis
    using a c
    by (simp add: publish_instance_activated_event_def ports_check_up b Let_def
        split: prod.splits)
qed

text \<open>
  C3, amended: whenever \<open>publish_instance_activated_event\<close> starts the statistics task,
  it does so after the event has been handed to the publisher's thread and before the
  activated flag is written; the write of the flag follows in the same call.
\<close>

theorem stats_start_then_flag:
  assumes "Stats_start i \<in> set (fst (publish_instance_activated_event K e s))"
  shows "precedes (Stats_start i) (Set_flag Activated)
           (fst (publish_instance_activated_event K e s))
       \<and> Set_flag Activated \<in> set (fst (publish_instance_activated_event K e s))
       \<and> (\<exists>p ev. precedes (Thread_start p ev) (Stats_start i)
                    (fst (publish_instance_activated_event K e s)))
       \<and> activated (cfg (fst (snd (publish_instance_activated_event K e s))))"
  using assms
  by (auto simp add: publish_instance_activated_event_def Let_def
      split: prod.splits sum.splits if_splits)

text \<open>Witness for C3: the activation of \<open>agent0\<close> with the ports up starts the task with the default interval.\<close>

theorem stats_start_then_flag_witness:
  "Stats_start 15 \<in> set (fst (publish_instance_activated_event K0 ext_up agent0))
   \<and> precedes (Stats_start 15) (Set_flag Activated)
           (fst (publish_instance_activated_event K0 ext_up agent0))
   \<and> Set_flag Activated \<in> set (fst (publish_instance_activated_event K0 ext_up agent0))
   \<and> activated (cfg (fst (snd (publish_instance_activated_event K0 ext_up agent0))))"
proof -
  have a: "\<not> activated (cfg agent0)" by (simp add: agent0_def Config0_def)
  have b: "stats_interval ext_up = 15" by (simp add: stats_interval_def ext_up_def)
  have c: "cep_publisher_enabled ext_up" by (simp add: ext_up_def)
  have d: "Stats_start 15 \<in> set (fst (publish_instance_activated_event K0 ext_up agent0))"
    using a c
    by (simp add: publish_instance_activated_event_def ports_check_up b Let_def
        split: prod.splits)
  from stats_start_then_flag[OF d] d show ?thesis by blast
qed

subsection \<open>The delivery task\<close>

text \<open>
  C9: a delivery task that starts when the seconds elapsed since the publisher's
  \<open>start_time\<close> have reached \<open>mb_publisher_timeout * 1000\<close> returns False at once: its
  only effect is the warning that the event is dropped; it attempts no broker and does
  not sleep.
\<close>

theorem deadline_passed_at_start:
  assumes "mb_publisher_timeout c * 1000 \<le> t - start_time self"
  shows "publish_event w c self ev t = Some ([drop_warning c], t, Inr False)"
  unfolding publish_event_def Let_def drop_warning_def
  by (subst retry_loop.simps) (use assms in simp)

text \<open>Witness for C9: a timeout of 1 and a task started 1000 seconds after the publisher was made.\<close>

theorem deadline_passed_at_start_witness:
  "mb_publisher_timeout Config0 * 1000 \<le> 1000 - start_time pub0
   \<and> publish_event world_B Config0 pub0 CompleteTopologyRequestEvent 1000
       = Some ([drop_warning Config0], 1000, Inr False)"
proof -
  have a: "mb_publisher_timeout Config0 * 1000 \<le> 1000 - start_time pub0"
    by (simp add: Config0_def pub0_def)
  from deadline_passed_at_start[OF a] a show ?thesis by blast
qed

subsection \<open>One sweep over the brokers\<close>

lemma succeeded_append: "succeeded (xs @ ys) = (succeeded xs \<or> succeeded ys)"
  by (induction xs rule: succeeded.induct) auto

lemma success_is_final_append:
  "\<not> succeeded xs \<Longrightarrow> success_is_final (xs @ ys) = success_is_final ys"
  by (induction xs rule: success_is_final.induct) auto

lemma failures_logged_append:
  "failures_logged xs \<Longrightarrow> failures_logged (xs @ ys) = failures_logged ys"
  by (induction xs rule: failures_logged.induct) (auto split: list.splits if_splits)

lemma host_port_split: "host_port u \<Longrightarrow> \<exists>h p. split_on CHR '':'' u = [h, p]"
  by (auto simp: host_port_def split: list.splits)

lemma sweep_induct [consumes 1, case_names Nil Malformed Accepted Refused]:
  assumes "for_mb_urls w tp pl au urls t = (tr, t', r)"
    and "\<And>t. P [] t [] t Exhausted"
    and "\<And>u urls t. \<not> host_port u \<Longrightarrow> P (u # urls) t [] t (Raised ValueError)"
    and "\<And>u urls t h p d. split_on CHR '':'' u = [h, p] \<Longrightarrow>
           single w tp pl h p au t = (True, d) \<Longrightarrow>
           P (u # urls) t
             [Publish_single tp pl h p au True,
              Log Debug ''Event published to %s:%s'' [S h, S p]]
             (t + int d) Published"
    and "\<And>u urls t h p d tr t' r. split_on CHR '':'' u = [h, p] \<Longrightarrow>
           single w tp pl h p au t = (False, d) \<Longrightarrow>
           for_mb_urls w tp pl au urls (t + int d) = (tr, t', r) \<Longrightarrow>
           P urls (t + int d) tr t' r \<Longrightarrow>
           P (u # urls) t
             (Publish_single tp pl h p au False
              # Log Debug ''Could not publish event to message broker %s:%s.'' [S h, S p]
              # tr) t' r"
  shows "P urls t tr t' r"
  using assms(1)
proof (induction urls arbitrary: t tr t' r)
  case Nil
  then show ?case using assms(2) by simp
next
  case (Cons u urls)
  show ?case
  proof (cases "host_port u")
    case False
    with Cons.prems have "tr = [] \<and> t' = t \<and> r = Raised ValueError"
      by (auto simp: host_port_def split: list.splits)
    with assms(3)[OF False] show ?thesis by simp
  next
    case True
    then obtain h p where sp: "split_on CHR '':'' u = [h, p]" by (auto dest: host_port_split)
    obtain ok d where sg: "single w tp pl h p au t = (ok, d)" by (cases "single w tp pl h p au t")
    show ?thesis
    proof (cases ok)
      case True
      with Cons.prems sp sg assms(4)[OF sp, of t d urls] show ?thesis by simp
    next
      case False
      obtain tr1 t1 r1 where rec: "for_mb_urls w tp pl au urls (t + int d) = (tr1, t1, r1)"
        by (cases "for_mb_urls w tp pl au urls (t + int d)")
      from Cons.IH[OF rec] have ih: "P urls (t + int d) tr1 t1 r1" .
      from Cons.prems sp sg False rec
      have "tr = Publish_single tp pl h p au False
              # Log Debug ''Could not publish event to message broker %s:%s.'' [S h, S p]
              # tr1 \<and> t' = t1 \<and> r = r1" by simp
      with assms(5)[OF sp _ rec ih] sg False show ?thesis by simp
    qed
  qed
qed

lemma sweep_time: "for_mb_urls w tp pl au urls t = (tr, t', r) \<Longrightarrow> t \<le> t'"
  by (induction rule: sweep_induct) auto

lemma sweep_quiet:
  "for_mb_urls w tp pl au urls t = (tr, t', r) \<Longrightarrow> sleeps tr = [] \<and> filter is_warning tr = []"
  by (induction rule: sweep_induct) auto

lemma sweep_success_is_final:
  "for_mb_urls w tp pl au urls t = (tr, t', r) \<Longrightarrow> success_is_final tr"
  by (induction rule: sweep_induct) auto

lemma sweep_succeeded:
  "for_mb_urls w tp pl au urls t = (tr, t', r) \<Longrightarrow> succeeded tr = (r = Published)"
  by (induction rule: sweep_induct) auto

lemma sweep_failures_logged:
  "for_mb_urls w tp pl au urls t = (tr, t', r) \<Longrightarrow> failures_logged tr"
  by (induction rule: sweep_induct) auto


lemma sweep_exhausted:
  "for_mb_urls w tp pl au urls t = (tr, t', r) \<Longrightarrow> r = Exhausted \<Longrightarrow>
   length (attempts tr) = length urls"
  by (induction rule: sweep_induct) auto

lemma sweep_raised:
  "for_mb_urls w tp pl au urls t = (tr, t', r) \<Longrightarrow> r = Raised e \<Longrightarrow>
   e = ValueError \<and> (\<exists>u\<in>set urls. \<not> host_port u)"
  by (induction rule: sweep_induct) auto

lemma sweep_sweeps_complete:
  "for_mb_urls w tp pl au urls t = (tr, t', r) \<Longrightarrow>
   sweeps_complete n k (tr @ ys) = sweeps_complete n (k + length (attempts tr)) ys"
  by (induction arbitrary: k rule: sweep_induct) auto

subsection \<open>The retry loop\<close>

lemma pos_iterator_next:
  assumes "pos_iterator it"
  shows "\<exists>d it'. get_next_retry_interval it = Inr (d, it') \<and> 0 < d \<and> pos_iterator it'"
proof -
  from assms have ne: "intervals it \<noteq> []" and pos: "list_all (\<lambda>x. 0 < x) (intervals it)"
    by (simp_all add: pos_iterator_def)
  let ?i = "min (cursor it) (length (intervals it) - 1)"
  from ne have "?i < length (intervals it)" by (cases "intervals it") auto
  with pos have "0 < intervals it ! ?i" by (simp add: list_all_length)
  with ne assms show ?thesis
    by (simp add: get_next_retry_interval_def Let_def pos_iterator_def)
qed

lemma pos_iterator_init: "pos_iterator (IncrementalCeilingListIterator_init retry_intervals)"
  by (simp add: pos_iterator_def IncrementalCeilingListIterator_init_def retry_intervals_def)

lemma retry_loop_dropped:
  "\<not> t - start_time self < mb_publisher_timeout c * 1000 \<Longrightarrow>
   retry_loop w c self pl au it t acc = Some (acc @ [drop_warning c], t, Inr False)"
  by (subst retry_loop.simps) (simp add: drop_warning_def)

lemma retry_loop_published:
  "t - start_time self < mb_publisher_timeout c * 1000 \<Longrightarrow>
   get_next_retry_interval it = Inr (d, it') \<Longrightarrow>
   for_mb_urls w (topic self) pl au (mb_urls c) t = (tr, t', Published) \<Longrightarrow>
   retry_loop w c self pl au it t acc = Some (acc @ tr, t', Inr True)"
  by (subst retry_loop.simps) simp

lemma retry_loop_raised:
  "t - start_time self < mb_publisher_timeout c * 1000 \<Longrightarrow>
   get_next_retry_interval it = Inr (d, it') \<Longrightarrow>
   for_mb_urls w (topic self) pl au (mb_urls c) t = (tr, t', Raised e) \<Longrightarrow>
   retry_loop w c self pl au it t acc = Some (acc @ tr, t', Inl e)"
  by (subst retry_loop.simps) simp

lemma retry_loop_retry:
  "t - start_time self < mb_publisher_timeout c * 1000 \<Longrightarrow>
   get_next_retry_interval it = Inr (d, it') \<Longrightarrow>
   for_mb_urls w (topic self) pl au (mb_urls c) t = (tr, t', Exhausted) \<Longrightarrow>
   0 \<le> d \<Longrightarrow>
   retry_loop w c self pl au it t acc
     = retry_loop w c self pl au it' (t' + d) (acc @ tr @ [retry_log d, Sleep d])"
  by (subst retry_loop.simps) (simp add: Let_def retry_log_def)

lemma retry_loop_induct [consumes 1, case_names Dropped Published Raised Retry]:
  assumes "pos_iterator it"
    and "\<And>it t acc. \<not> t - start_time self < mb_publisher_timeout c * 1000 \<Longrightarrow>
           P it t acc (acc @ [drop_warning c], t, Inr False)"
    and "\<And>it t acc d it' tr t'. t - start_time self < mb_publisher_timeout c * 1000 \<Longrightarrow>
           get_next_retry_interval it = Inr (d, it') \<Longrightarrow>
           for_mb_urls w (topic self) pl au (mb_urls c) t = (tr, t', Published) \<Longrightarrow>
           P it t acc (acc @ tr, t', Inr True)"
    and "\<And>it t acc d it' tr t' e. t - start_time self < mb_publisher_timeout c * 1000 \<Longrightarrow>
           get_next_retry_interval it = Inr (d, it') \<Longrightarrow>
           for_mb_urls w (topic self) pl au (mb_urls c) t = (tr, t', Raised e) \<Longrightarrow>
           P it t acc (acc @ tr, t', Inl e)"
    and "\<And>it t acc d it' tr t' res. t - start_time self < mb_publisher_timeout c * 1000 \<Longrightarrow>
           get_next_retry_interval it = Inr (d, it') \<Longrightarrow> 0 < d \<Longrightarrow>
           for_mb_urls w (topic self) pl au (mb_urls c) t = (tr, t', Exhausted) \<Longrightarrow>
           P it' (t' + d) (acc @ tr @ [retry_log d, Sleep d]) res \<Longrightarrow>
           P it t acc res"
  shows "\<exists>res. retry_loop w c self pl au it t acc = Some res \<and> P it t acc res"
  using assms(1)
proof (induction "nat (mb_publisher_timeout c * 1000 - (t - start_time self))"
    arbitrary: it t acc rule: less_induct)
  case less
  show ?case
  proof (cases "t - start_time self < mb_publisher_timeout c * 1000")
    case False
    from retry_loop_dropped[OF False] assms(2)[OF False] show ?thesis by blast
  next
    case True
    from pos_iterator_next[OF less.prems] obtain d it'
      where nx: "get_next_retry_interval it = Inr (d, it')" and d: "0 < d"
        and it': "pos_iterator it'" by blast
    obtain tr t' r where sw: "for_mb_urls w (topic self) pl au (mb_urls c) t = (tr, t', r)"
      by (cases "for_mb_urls w (topic self) pl au (mb_urls c) t")
    show ?thesis
    proof (cases r)
      case Published
      with sw have sw': "for_mb_urls w (topic self) pl au (mb_urls c) t = (tr, t', Published)"
        by simp
      from retry_loop_published[OF True nx sw'] assms(3)[OF True nx sw'] show ?thesis by blast
    next
      case (Raised e)
      with sw have sw': "for_mb_urls w (topic self) pl au (mb_urls c) t = (tr, t', Raised e)"
        by simp
      from retry_loop_raised[OF True nx sw'] assms(4)[OF True nx sw'] show ?thesis by blast
    next
      case Exhausted
      with sw have sw': "for_mb_urls w (topic self) pl au (mb_urls c) t = (tr, t', Exhausted)"
        by simp
      from sweep_time[OF sw] have "t \<le> t'" .
      with d True
      have "nat (mb_publisher_timeout c * 1000 - (t' + d - start_time self))
            < nat (mb_publisher_timeout c * 1000 - (t - start_time self))" by simp
      from less.hyps[OF this it', of "acc @ tr @ [retry_log d, Sleep d]"] obtain res where
        res: "retry_loop w c self pl au it' (t' + d) (acc @ tr @ [retry_log d, Sleep d])
                = Some res"
        and P: "P it' (t' + d) (acc @ tr @ [retry_log d, Sleep d]) res" by blast
      from d have "0 \<le> d" by simp
      from retry_loop_retry[OF True nx sw' this, of acc] res
      have "retry_loop w c self pl au it t acc = Some res" by simp
      with assms(5)[OF True nx d sw' P] show ?thesis by blast
    qed
  qed
qed

lemma retry_loop_success:
  assumes "pos_iterator it"
  shows "\<exists>res. retry_loop w c self pl au it t acc = Some res \<and>
           (\<not> succeeded acc \<longrightarrow>
              success_is_final (fst res) \<and> (succeeded (fst res) = (snd (snd res) = Inr True)))"
proof (rule retry_loop_induct[OF assms, where P = "\<lambda>it t acc res. \<not> succeeded acc \<longrightarrow>
              success_is_final (fst res) \<and> (succeeded (fst res) = (snd (snd res) = Inr True))"],
    goal_cases)
  case (1 it t acc)
  then show ?case
    by (simp add: success_is_final_append succeeded_append drop_warning_def)
next
  case (2 it t acc d it' tr t')
  from sweep_success_is_final[OF 2(3)] sweep_succeeded[OF 2(3)] show ?case
    by (simp add: success_is_final_append succeeded_append)
next
  case (3 it t acc d it' tr t' e)
  from sweep_success_is_final[OF 3(3)] sweep_succeeded[OF 3(3)] show ?case
    by (simp add: success_is_final_append succeeded_append)
next
  case (4 it t acc d it' tr t' res)
  from sweep_succeeded[OF 4(4)] have "\<not> succeeded tr" by simp
  with 4(5) show ?case by (simp add: succeeded_append retry_log_def)
qed

lemma retry_loop_failures_logged:
  assumes "pos_iterator it"
  shows "\<exists>res. retry_loop w c self pl au it t acc = Some res \<and>
           (failures_logged acc \<longrightarrow> failures_logged (fst res))"
proof (rule retry_loop_induct[OF assms,
      where P = "\<lambda>it t acc res. failures_logged acc \<longrightarrow> failures_logged (fst res)"],
    goal_cases)
  case (1 it t acc)
  then show ?case by (simp add: failures_logged_append drop_warning_def)
next
  case (2 it t acc d it' tr t')
  from sweep_failures_logged[OF 2(3)] show ?case by (simp add: failures_logged_append)
next
  case (3 it t acc d it' tr t' e)
  from sweep_failures_logged[OF 3(3)] show ?case by (simp add: failures_logged_append)
next
  case (4 it t acc d it' tr t' res)
  from sweep_failures_logged[OF 4(4)] 4(5) show ?case
    by (simp add: failures_logged_append retry_log_def)
qed

lemma retry_loop_warnings:
  assumes "pos_iterator it"
  shows "\<exists>res. retry_loop w c self pl au it t acc = Some res \<and>
           (filter is_warning acc = [] \<longrightarrow>
              (snd (snd res) = Inr False \<longrightarrow>
                 filter is_warning (fst res) = [drop_warning c]
                 \<and> last (fst res) = drop_warning c
                 \<and> mb_publisher_timeout c * 1000 \<le> fst (snd res) - start_time self)
              \<and> (snd (snd res) \<noteq> Inr False \<longrightarrow> filter is_warning (fst res) = []))"
proof (rule retry_loop_induct[OF assms, where P = "\<lambda>it t acc res.
           filter is_warning acc = [] \<longrightarrow>
              (snd (snd res) = Inr False \<longrightarrow>
                 filter is_warning (fst res) = [drop_warning c]
                 \<and> last (fst res) = drop_warning c
                 \<and> mb_publisher_timeout c * 1000 \<le> fst (snd res) - start_time self)
              \<and> (snd (snd res) \<noteq> Inr False \<longrightarrow> filter is_warning (fst res) = [])"],
    goal_cases)
  case (1 it t acc)
  then show ?case by (simp add: drop_warning_def)
next
  case (2 it t acc d it' tr t')
  from sweep_quiet[OF 2(3)] show ?case by simp
next
  case (3 it t acc d it' tr t' e)
  from sweep_quiet[OF 3(3)] show ?case by simp
next
  case (4 it t acc d it' tr t' res)
  from sweep_quiet[OF 4(4)] 4(5) show ?case by (simp add: retry_log_def)
qed

lemma retry_loop_sweeps_complete:
  assumes "pos_iterator it"
  shows "\<exists>res. retry_loop w c self pl au it t acc = Some res \<and>
           ((\<forall>ys. sweeps_complete (length (mb_urls c)) 0 (acc @ ys)
                  = sweeps_complete (length (mb_urls c)) 0 ys) \<longrightarrow>
            sweeps_complete (length (mb_urls c)) 0 (fst res))"
proof (rule retry_loop_induct[OF assms, where P = "\<lambda>it t acc res.
           (\<forall>ys. sweeps_complete (length (mb_urls c)) 0 (acc @ ys)
                  = sweeps_complete (length (mb_urls c)) 0 ys) \<longrightarrow>
            sweeps_complete (length (mb_urls c)) 0 (fst res)"],
    goal_cases)
  case (1 it t acc)
  then show ?case by (simp add: drop_warning_def)
next
  case (2 it t acc d it' tr t')
  from sweep_sweeps_complete[OF 2(3), of "length (mb_urls c)" 0 "[]"] show ?case by simp
next
  case (3 it t acc d it' tr t' e)
  from sweep_sweeps_complete[OF 3(3), of "length (mb_urls c)" 0 "[]"] show ?case by simp
next
  case (4 it t acc d it' tr t' res)
  note sc = sweep_sweeps_complete[OF 4(4), of "length (mb_urls c)" 0]
  note ex = sweep_exhausted[OF 4(4)]
  show ?case
  proof
    assume inv: "\<forall>ys. sweeps_complete (length (mb_urls c)) 0 (acc @ ys)
                  = sweeps_complete (length (mb_urls c)) 0 ys"
    have "\<forall>ys. sweeps_complete (length (mb_urls c)) 0
                 ((acc @ tr @ [retry_log d, Sleep d]) @ ys)
               = sweeps_complete (length (mb_urls c)) 0 ys"
    proof
      fix ys
      have "sweeps_complete (length (mb_urls c)) 0 ((acc @ tr @ [retry_log d, Sleep d]) @ ys)
            = sweeps_complete (length (mb_urls c)) 0 (tr @ ([retry_log d, Sleep d] @ ys))"
        using inv by simp
      also have "\<dots> = sweeps_complete (length (mb_urls c)) (length (attempts tr))
                         ([retry_log d, Sleep d] @ ys)"
        using sc[of "[retry_log d, Sleep d] @ ys"] by simp
      also have "\<dots> = sweeps_complete (length (mb_urls c)) 0 ys"
        using ex by (simp add: retry_log_def)
      finally show "sweeps_complete (length (mb_urls c)) 0
                 ((acc @ tr @ [retry_log d, Sleep d]) @ ys)
               = sweeps_complete (length (mb_urls c)) 0 ys" .
    qed
    with 4(5) show "sweeps_complete (length (mb_urls c)) 0 (fst res)" by blast
  qed
qed

lemma retry_loop_errors:
  assumes "pos_iterator it"
  shows "\<exists>res. retry_loop w c self pl au it t acc = Some res \<and>
           (\<forall>e. snd (snd res) = Inl e \<longrightarrow>
                e = ValueError \<and> (\<exists>u\<in>set (mb_urls c). \<not> host_port u))"
proof (rule retry_loop_induct[OF assms, where P = "\<lambda>it t acc res.
           \<forall>e. snd (snd res) = Inl e \<longrightarrow>
                e = ValueError \<and> (\<exists>u\<in>set (mb_urls c). \<not> host_port u)"],
    goal_cases)
  case (1 it t acc)
  then show ?case by simp
next
  case (2 it t acc d it' tr t')
  then show ?case by simp
next
  case (3 it t acc d it' tr t' e)
  from sweep_raised[OF 3(3)] show ?case by simp
next
  case (4 it t acc d it' tr t' res)
  then show ?case by simp
qed

subsection \<open>Sample runs of the delivery task\<close>

lemma next_init:
  "get_next_retry_interval (IncrementalCeilingListIterator_init retry_intervals)
     = Inr (2, \<lparr>intervals = retry_intervals, cursor = 1\<rparr>)"
  by (simp add: get_next_retry_interval_def IncrementalCeilingListIterator_init_def
      retry_intervals_def Let_def)

lemma sweep_AB:
  "for_mb_urls world_B ''initializer/CompleteTopologyRequestEvent'' ''{}'' None
     [''A:1883'', ''B:1883''] t = (trace_AB, t, Published)"
  by (simp add: world_B_def trace_AB_def)

lemma sweep_down:
  "for_mb_urls world_down ''initializer/CompleteTopologyRequestEvent'' ''{}'' None
     [''A:1883'', ''B:1883''] t
   = ([Publish_single ''initializer/CompleteTopologyRequestEvent'' ''{}'' ''A'' ''1883'' None False,
       Log Debug ''Could not publish event to message broker %s:%s.'' [S ''A'', S ''1883''],
       Publish_single ''initializer/CompleteTopologyRequestEvent'' ''{}'' ''B'' ''1883'' None False,
       Log Debug ''Could not publish event to message broker %s:%s.'' [S ''B'', S ''1883'']],
      t, Exhausted)"
  by (simp add: world_down_def)

lemma run_AB:
  assumes "t < 1000"
  shows "publish_event world_B Config0 pub0 CompleteTopologyRequestEvent t
           = Some (trace_AB, t, Inr True)"
proof -
  have c: "t - start_time pub0 < mb_publisher_timeout Config0 * 1000"
    using assms by (simp add: pub0_def Config0_def)
  have s: "for_mb_urls world_B (topic pub0) ''{}'' None (mb_urls Config0) t
             = (trace_AB, t, Published)"
    using sweep_AB[of t] by (simp add: pub0_def Config0_def)
  from retry_loop_published[OF c next_init s, of "[]"]
  show ?thesis
    by (simp add: publish_event_def Let_def) (simp add: Config0_def world_B_def)
qed

lemma run_down:
  "publish_event world_down Config0 pub0 CompleteTopologyRequestEvent 999
     = Some (trace_down, 1001, Inr False)"
proof -
  have c: "999 - start_time pub0 < mb_publisher_timeout Config0 * 1000"
    by (simp add: pub0_def Config0_def)
  have s: "for_mb_urls world_down (topic pub0) ''{}'' None (mb_urls Config0) 999
             = ([Publish_single ''initializer/CompleteTopologyRequestEvent'' ''{}'' ''A'' ''1883'' None False,
       Log Debug ''Could not publish event to message broker %s:%s.'' [S ''A'', S ''1883''],
       Publish_single ''initializer/CompleteTopologyRequestEvent'' ''{}'' ''B'' ''1883'' None False,
       Log Debug ''Could not publish event to message broker %s:%s.'' [S ''B'', S ''1883'']],
      999, Exhausted)"
    using sweep_down[of 999] by (simp add: pub0_def Config0_def)
  have d: "\<not> (999 + 2) - start_time pub0 < mb_publisher_timeout Config0 * 1000"
    by (simp add: pub0_def Config0_def)
  have "(0::int) \<le> 2" by simp
  from retry_loop_retry[OF c next_init s this, of "[]"]
    retry_loop_dropped[OF d, of world_down "''{}''" None]
  show ?thesis
    by (simp add: publish_event_def Let_def trace_down_def)
      (simp add: Config0_def world_down_def)
qed

lemma run_malformed:
  "publish_event world_B (Config0\<lparr>mb_urls := [''localhost'']\<rparr>) pub0
     CompleteTopologyRequestEvent 0 = Some ([], 0, Inl ValueError)"
proof -
  have c: "0 - start_time pub0
             < mb_publisher_timeout (Config0\<lparr>mb_urls := [''localhost'']\<rparr>) * 1000"
    by (simp add: pub0_def Config0_def)
  have s: "for_mb_urls world_B (topic pub0) ''{}'' None
             (mb_urls (Config0\<lparr>mb_urls := [''localhost'']\<rparr>)) 0 = ([], 0, Raised ValueError)"
    by simp
  from retry_loop_raised[OF c next_init s, of "[]"]
  show ?thesis
    by (simp add: publish_event_def Let_def) (simp add: Config0_def world_B_def)
qed

subsection \<open>The deadline of the retry loop\<close>

text \<open>
  C1 fails on the code: the loop test compares the elapsed seconds with
  \<open>mb_publisher_timeout * 1000\<close>, not with \<open>mb_publisher_timeout\<close>. With a timeout of
  1, a task that starts 5 seconds after the publisher was made, when the timeout has
  long passed, still enters the loop, attempts both brokers and delivers through B.
\<close>

theorem loop_entered_after_timeout:
  "mb_publisher_timeout Config0 \<le> 5 - start_time pub0
   \<and> publish_event world_B Config0 pub0 CompleteTopologyRequestEvent 5
       = Some (trace_AB, 5, Inr True)"
proof -
  have "mb_publisher_timeout Config0 \<le> 5 - start_time pub0"
    by (simp add: Config0_def pub0_def)
  moreover have "(5::int) < 1000" by simp
  note run_AB[OF this]
  ultimately show ?thesis by blast
qed

subsection \<open>Order of attempts and the first success\<close>



subsection \<open>Failures inside the delivery task\<close>

text \<open>
  Counterexample to C7 as stated: a broker URL without a colon. The unpacking of
  \<open>mb_url.split(":")\<close> raises ValueError before the \<open>try\<close>; the exception leaves the
  task, which ends without an attempt, before the deadline and without the warning.
\<close>

theorem malformed_url_counterexample:
  "publish_event world_B (Config0\<lparr>mb_urls := [''localhost'']\<rparr>) pub0
     CompleteTopologyRequestEvent 0 = Some ([], 0, Inl ValueError)"
  by (rule run_malformed)

text \<open>
  C7, amended: when every configured broker URL splits at the colon into host and port,
  the delivery task ends and returns True or False, no exception leaves it. Every
  refused attempt is followed by its debug line, and no sweep is cut short: a sleep comes
  only after all endpoints were attempted. The task returns False only with the deadline
  of the loop reached, no attempt accepted, and exactly one warning, the last effect,
  which carries \<open>mb_publisher_timeout\<close>; a task that returns True logs no warning.
\<close>

theorem publish_failures_swallowed:
  assumes "\<forall>u\<in>set (mb_urls c). host_port u"
  shows "\<exists>tr t' b. publish_event w c self ev t = Some (tr, t', Inr b)
           \<and> failures_logged tr
           \<and> sweeps_complete (length (mb_urls c)) 0 tr
           \<and> (b \<longrightarrow> succeeded tr \<and> filter is_warning tr = [])
           \<and> (\<not> b \<longrightarrow> \<not> succeeded tr
                 \<and> filter is_warning tr = [drop_warning c]
                 \<and> last tr = drop_warning c
                 \<and> mb_publisher_timeout c * 1000 \<le> t' - start_time self)"
proof -
  define au where "au = (case mb_username c of None \<Rightarrow> None | Some u \<Rightarrow> Some (u, mb_password c))"
  define it where "it = IncrementalCeilingListIterator_init retry_intervals"
  have pe: "publish_event w c self ev t = retry_loop w c self (to_json w ev) au it t []"
    by (simp add: publish_event_def Let_def au_def it_def)
  have pos: "pos_iterator it" by (simp add: it_def pos_iterator_init)
  obtain res where res: "retry_loop w c self (to_json w ev) au it t [] = Some res"
    using retry_loop_errors[OF pos, of w c self "to_json w ev" au t "[]"] by blast
  obtain tr t' r where r: "res = (tr, t', r)" by (cases res)
  from retry_loop_errors[OF pos, of w c self "to_json w ev" au t "[]"] res r assms
  have noerr: "\<forall>e. r \<noteq> Inl e" by auto
  then obtain b where b: "r = Inr b" by (cases r) auto
  from retry_loop_failures_logged[OF pos, of w c self "to_json w ev" au t "[]"] res r
  have fl: "failures_logged tr" by simp
  from retry_loop_sweeps_complete[OF pos, of w c self "to_json w ev" au t "[]"] res r
  have sc: "sweeps_complete (length (mb_urls c)) 0 tr" by simp
  from retry_loop_success[OF pos, of w c self "to_json w ev" au t "[]"] res r b
  have su: "succeeded tr = b" by simp
  from retry_loop_warnings[OF pos, of w c self "to_json w ev" au t "[]"] res r b
  have wa: "(\<not> b \<longrightarrow> filter is_warning tr = [drop_warning c] \<and> last tr = drop_warning c
                 \<and> mb_publisher_timeout c * 1000 \<le> t' - start_time self)
            \<and> (b \<longrightarrow> filter is_warning tr = [])" by simp
  from pe res r b fl sc su wa show ?thesis by simp
qed

text \<open>
  Witness for C7: both brokers refuse in the last second before the deadline; the task
  attempts A and B, sleeps 2 seconds, finds the deadline passed, warns once and returns
  False.
\<close>

theorem publish_failures_swallowed_witness:
  "mb_urls Config0 = [''A:1883'', ''B:1883'']
   \<and> host_port ''A:1883'' \<and> host_port ''B:1883''
   \<and> publish_event world_down Config0 pub0 CompleteTopologyRequestEvent 999
       = Some (trace_down, 1001, Inr False)
   \<and> failures_logged trace_down
   \<and> sweeps_complete (length (mb_urls Config0)) 0 trace_down
   \<and> \<not> succeeded trace_down
   \<and> filter is_warning trace_down = [drop_warning Config0]
   \<and> last trace_down = drop_warning Config0
   \<and> mb_publisher_timeout Config0 * 1000 \<le> 1001 - start_time pub0"
proof -
  have u: "mb_urls Config0 = [''A:1883'', ''B:1883'']" by (simp add: Config0_def)
  have hp: "host_port ''A:1883'' \<and> host_port ''B:1883''" by (simp add: host_port_def)
  from u hp have h: "\<forall>u\<in>set (mb_urls Config0). host_port u" by simp
  from publish_failures_swallowed[OF h, of world_down pub0 CompleteTopologyRequestEvent 999]
    run_down
  have "failures_logged trace_down
   \<and> sweeps_complete (length (mb_urls Config0)) 0 trace_down
   \<and> \<not> succeeded trace_down
   \<and> filter is_warning trace_down = [drop_warning Config0]
   \<and> last trace_down = drop_warning Config0
   \<and> mb_publisher_timeout Config0 * 1000 \<le> 1001 - start_time pub0"
    by auto
  with u hp run_down show ?thesis by blast
qed

subsection \<open>Hand-offs over calls in a row\<close>

lemma handoffs_append: "handoffs (xs @ ys) = handoffs xs @ handoffs ys"
  by (induction xs rule: handoffs.induct) auto

lemma lookups_append: "lookups (xs @ ys) = lookups xs @ lookups ys"
  by (induction xs rule: lookups.induct) auto

lemma get_publisher_again:
  "get_publisher t2 tp (snd (get_publisher t1 tp ps))
     = (fst (get_publisher t1 tp ps), snd (get_publisher t1 tp ps))"
  by (auto simp: get_publisher_def Let_def split: option.splits)

lemma get_publisher_stored:
  "snd (get_publisher t tp ps) tp = Some (fst (get_publisher t tp ps))"
  by (auto simp: get_publisher_def Let_def split: option.splits)

lemma calls_handoffs:
  assumes "\<And>e s. handoffs (fst (f e s)) = [(fst (get_publisher (now e) tp (publishers s)), ev)]"
    and "\<And>e s. publishers (snd (f e s)) = snd (get_publisher (now e) tp (publishers s))"
  shows "handoffs (fst (calls f (e # es) s))
           = replicate (Suc (length es)) (fst (get_publisher (now e) tp (publishers s)), ev)"
proof (induction es arbitrary: e s)
  case Nil
  obtain tr s' where a: "f e s = (tr, s')" by (cases "f e s")
  with assms(1)[of e s] show ?case by simp
next
  case (Cons e' es)
  obtain tr s' where a: "f e s = (tr, s')" by (cases "f e s")
  obtain tr' s'' where b: "calls f (e' # es) s' = (tr', s'')" by (cases "calls f (e' # es) s'")
  from assms(1)[of e s] a
  have h1: "handoffs tr = [(fst (get_publisher (now e) tp (publishers s)), ev)]" by simp
  from assms(2)[of e s] a
  have p1: "publishers s' = snd (get_publisher (now e) tp (publishers s))" by simp
  from Cons.IH[of e' s'] b
  have "handoffs tr'
          = replicate (Suc (length es)) (fst (get_publisher (now e') tp (publishers s')), ev)"
    by simp
  with p1 have h2: "handoffs tr'
          = replicate (Suc (length es)) (fst (get_publisher (now e) tp (publishers s)), ev)"
    by (simp add: get_publisher_again)
  have "calls f (e # e' # es) s = (tr @ tr', s'')" using a b by simp
  with h1 h2 show ?case by (simp add: handoffs_append)
qed

lemma calls_lookups:
  assumes "\<And>e s. lookups (fst (f e s)) = [tp]"
  shows "lookups (fst (calls f es s)) = replicate (length es) tp"
proof (induction es arbitrary: s)
  case Nil
  then show ?case by simp
next
  case (Cons e es)
  obtain tr s' where a: "f e s = (tr, s')" by (cases "f e s")
  obtain tr' s'' where b: "calls f es s' = (tr', s'')" by (cases "calls f es s'")
  have "lookups tr = [tp]" using assms[of e s] a by simp
  moreover have "lookups tr' = replicate (length es) tp" using Cons.IH[of s'] b by simp
  ultimately show ?case using a b by (simp add: lookups_append)
qed

lemma topology_call:
  "publish_complete_topology_request_event K e s =
     ([Construct CompleteTopologyRequestEvent,
       Get_publisher (INITIALIZER_TOPIC K @ COMPLETE_TOPOLOGY_REQUEST_EVENT K),
       Thread_start (fst (get_publisher (now e)
                            (INITIALIZER_TOPIC K @ COMPLETE_TOPOLOGY_REQUEST_EVENT K)
                            (publishers s)))
         CompleteTopologyRequestEvent,
       Log Info ''Complete topology request event published'' []],
      s\<lparr>publishers := snd (get_publisher (now e)
                              (INITIALIZER_TOPIC K @ COMPLETE_TOPOLOGY_REQUEST_EVENT K)
                              (publishers s))\<rparr>)"
  by (simp add: publish_complete_topology_request_event_def Let_def split: prod.splits)

lemma tenant_call:
  "publish_complete_tenant_request_event K e s =
     ([Construct CompleteTenantRequestEvent,
       Get_publisher (INITIALIZER_TOPIC K @ COMPLETE_TENANT_REQUEST_EVENT K),
       Thread_start (fst (get_publisher (now e)
                            (INITIALIZER_TOPIC K @ COMPLETE_TENANT_REQUEST_EVENT K)
                            (publishers s)))
         CompleteTenantRequestEvent,
       Log Info ''Complete tenant request event published'' []],
      s\<lparr>publishers := snd (get_publisher (now e)
                              (INITIALIZER_TOPIC K @ COMPLETE_TENANT_REQUEST_EVENT K)
                              (publishers s))\<rparr>)"
  by (simp add: publish_complete_tenant_request_event_def Let_def split: prod.splits)

text \<open>
  C10: \<open>publish_complete_topology_request_event\<close> and
  \<open>publish_complete_tenant_request_event\<close> test no flag. From any state, every call
  constructs the request event of its kind, looks up the publisher of its topic (the
  initializer topic followed by the name of the event) through \<open>get_publisher\<close>, starts
  that publisher's delivery thread with the event just constructed, and logs; the
  publisher is the one the registry holds under the topic after the call, and \<open>Config\<close>
  is untouched. Over any number of calls in a row every call looks the topic up and
  starts one thread, all threads belong to the same publisher, the one the first call
  obtained, and each carries the request event.
\<close>

theorem bootstrap_requests_unguarded:
  "publish_complete_topology_request_event K e s =
     ([Construct CompleteTopologyRequestEvent,
       Get_publisher (INITIALIZER_TOPIC K @ COMPLETE_TOPOLOGY_REQUEST_EVENT K),
       Thread_start (fst (get_publisher (now e)
                            (INITIALIZER_TOPIC K @ COMPLETE_TOPOLOGY_REQUEST_EVENT K)
                            (publishers s)))
         CompleteTopologyRequestEvent,
       Log Info ''Complete topology request event published'' []],
      s\<lparr>publishers := snd (get_publisher (now e)
                              (INITIALIZER_TOPIC K @ COMPLETE_TOPOLOGY_REQUEST_EVENT K)
                              (publishers s))\<rparr>)
   \<and> publishers (snd (publish_complete_topology_request_event K e s))
         (INITIALIZER_TOPIC K @ COMPLETE_TOPOLOGY_REQUEST_EVENT K)
       = Some (fst (get_publisher (now e)
                      (INITIALIZER_TOPIC K @ COMPLETE_TOPOLOGY_REQUEST_EVENT K) (publishers s)))
   \<and> handoffs (fst (calls (publish_complete_topology_request_event K) (e # es) s))
       = replicate (Suc (length es))
           (fst (get_publisher (now e)
                   (INITIALIZER_TOPIC K @ COMPLETE_TOPOLOGY_REQUEST_EVENT K) (publishers s)),
            CompleteTopologyRequestEvent)
   \<and> lookups (fst (calls (publish_complete_topology_request_event K) es s))
       = replicate (length es) (INITIALIZER_TOPIC K @ COMPLETE_TOPOLOGY_REQUEST_EVENT K)
   \<and> spawned (fst (calls (publish_complete_topology_request_event K) es s)) = length es
   \<and> count_list (fst (calls (publish_complete_topology_request_event K) es s))
       (Construct CompleteTopologyRequestEvent) = length es
   \<and> cfg (snd (publish_complete_topology_request_event K e s)) = cfg s
   \<and> publish_complete_tenant_request_event K e s =
     ([Construct CompleteTenantRequestEvent,
       Get_publisher (INITIALIZER_TOPIC K @ COMPLETE_TENANT_REQUEST_EVENT K),
       Thread_start (fst (get_publisher (now e)
                            (INITIALIZER_TOPIC K @ COMPLETE_TENANT_REQUEST_EVENT K)
                            (publishers s)))
         CompleteTenantRequestEvent,
       Log Info ''Complete tenant request event published'' []],
      s\<lparr>publishers := snd (get_publisher (now e)
                              (INITIALIZER_TOPIC K @ COMPLETE_TENANT_REQUEST_EVENT K)
                              (publishers s))\<rparr>)
   \<and> publishers (snd (publish_complete_tenant_request_event K e s))
         (INITIALIZER_TOPIC K @ COMPLETE_TENANT_REQUEST_EVENT K)
       = Some (fst (get_publisher (now e)
                      (INITIALIZER_TOPIC K @ COMPLETE_TENANT_REQUEST_EVENT K) (publishers s)))
   \<and> handoffs (fst (calls (publish_complete_tenant_request_event K) (e # es) s))
       = replicate (Suc (length es))
           (fst (get_publisher (now e)
                   (INITIALIZER_TOPIC K @ COMPLETE_TENANT_REQUEST_EVENT K) (publishers s)),
            CompleteTenantRequestEvent)
   \<and> lookups (fst (calls (publish_complete_tenant_request_event K) es s))
       = replicate (length es) (INITIALIZER_TOPIC K @ COMPLETE_TENANT_REQUEST_EVENT K)
   \<and> spawned (fst (calls (publish_complete_tenant_request_event K) es s)) = length es
   \<and> count_list (fst (calls (publish_complete_tenant_request_event K) es s))
       (Construct CompleteTenantRequestEvent) = length es
   \<and> cfg (snd (publish_complete_tenant_request_event K e s)) = cfg s"
proof -
  let ?tpT = "INITIALIZER_TOPIC K @ COMPLETE_TOPOLOGY_REQUEST_EVENT K"
  let ?tpN = "INITIALIZER_TOPIC K @ COMPLETE_TENANT_REQUEST_EVENT K"
  let ?fT = "publish_complete_topology_request_event K"
  let ?fN = "publish_complete_tenant_request_event K"
  have t1: "publishers (snd (?fT e s)) ?tpT
              = Some (fst (get_publisher (now e) ?tpT (publishers s)))"
    by (simp add: topology_call get_publisher_stored)
  have t2: "handoffs (fst (calls ?fT (e # es) s))
              = replicate (Suc (length es))
                  (fst (get_publisher (now e) ?tpT (publishers s)), CompleteTopologyRequestEvent)"
    by (rule calls_handoffs) (simp_all add: topology_call)
  have t3: "lookups (fst (calls ?fT es s)) = replicate (length es) ?tpT"
    by (rule calls_lookups) (simp add: topology_call)
  have t4: "spawned (fst (calls ?fT es s)) = length es"
    by (rule calls_spawned) (simp add: topology_call)
  have t5: "count_list (fst (calls ?fT es s)) (Construct CompleteTopologyRequestEvent)
              = length es"
    by (rule calls_count) (simp add: topology_call)
  have t6: "cfg (snd (?fT e s)) = cfg s" by (simp add: topology_call)
  have n1: "publishers (snd (?fN e s)) ?tpN
              = Some (fst (get_publisher (now e) ?tpN (publishers s)))"
    by (simp add: tenant_call get_publisher_stored)
  have n2: "handoffs (fst (calls ?fN (e # es) s))
              = replicate (Suc (length es))
                  (fst (get_publisher (now e) ?tpN (publishers s)), CompleteTenantRequestEvent)"
    by (rule calls_handoffs) (simp_all add: tenant_call)
  have n3: "lookups (fst (calls ?fN es s)) = replicate (length es) ?tpN"
    by (rule calls_lookups) (simp add: tenant_call)
  have n4: "spawned (fst (calls ?fN es s)) = length es"
    by (rule calls_spawned) (simp add: tenant_call)
  have n5: "count_list (fst (calls ?fN es s)) (Construct CompleteTenantRequestEvent)
              = length es"
    by (rule calls_count) (simp add: tenant_call)
  have n6: "cfg (snd (?fN e s)) = cfg s" by (simp add: tenant_call)
  from topology_call[of K e s] tenant_call[of K e s] t1 t2 t3 t4 t5 t6 n1 n2 n3 n4 n5 n6
  show ?thesis by blast
qed

text \<open>
  Witness for C10: from \<open>agent0\<close>, two tenant requests (at seconds 100 and 50 of the
  clock) and two topology requests each start two threads of the publisher made at
  second 100 for their topic, with the event of their kind.
\<close>

theorem bootstrap_requests_unguarded_witness:
  "handoffs (fst (calls (publish_complete_tenant_request_event K0) [ext_up, ext_down] agent0))
     = [(\<lparr>topic = ''initializer/CompleteTenantRequestEvent'', start_time = 100\<rparr>,
         CompleteTenantRequestEvent),
        (\<lparr>topic = ''initializer/CompleteTenantRequestEvent'', start_time = 100\<rparr>,
         CompleteTenantRequestEvent)]
   \<and> handoffs (fst (calls (publish_complete_topology_request_event K0) [ext_up, ext_down] agent0))
     = [(\<lparr>topic = ''initializer/CompleteTopologyRequestEvent'', start_time = 100\<rparr>,
         CompleteTopologyRequestEvent),
        (\<lparr>topic = ''initializer/CompleteTopologyRequestEvent'', start_time = 100\<rparr>,
         CompleteTopologyRequestEvent)]
   \<and> lookups (fst (calls (publish_complete_tenant_request_event K0) [ext_up, ext_down] agent0))
     = [''initializer/CompleteTenantRequestEvent'', ''initializer/CompleteTenantRequestEvent'']"
proof -
  have a: "fst (get_publisher (now ext_up) ''initializer/CompleteTenantRequestEvent''
                  (publishers agent0))
             = \<lparr>topic = ''initializer/CompleteTenantRequestEvent'', start_time = 100\<rparr>"
    by (simp add: get_publisher_def EventPublisher_init_def Let_def ext_up_def agent0_def)
  have b: "fst (get_publisher (now ext_up) ''initializer/CompleteTopologyRequestEvent''
                  (publishers agent0))
             = \<lparr>topic = ''initializer/CompleteTopologyRequestEvent'', start_time = 100\<rparr>"
    by (simp add: get_publisher_def EventPublisher_init_def Let_def ext_up_def agent0_def)
  have c: "INITIALIZER_TOPIC K0 @ COMPLETE_TENANT_REQUEST_EVENT K0
             = ''initializer/CompleteTenantRequestEvent''"
    by (simp add: K0_def)
  have c': "INITIALIZER_TOPIC K0 @ COMPLETE_TOPOLOGY_REQUEST_EVENT K0
             = ''initializer/CompleteTopologyRequestEvent''"
    by (simp add: K0_def)
  from bootstrap_requests_unguarded[of K0 ext_up agent0 "[ext_down]"]
  have "handoffs (fst (calls (publish_complete_tenant_request_event K0) [ext_up, ext_down] agent0))
          = replicate (Suc (length [ext_down]))
              (fst (get_publisher (now ext_up)
                      (INITIALIZER_TOPIC K0 @ COMPLETE_TENANT_REQUEST_EVENT K0)
                      (publishers agent0)),
               CompleteTenantRequestEvent)"
    and "handoffs (fst (calls (publish_complete_topology_request_event K0) [ext_up, ext_down] agent0))
          = replicate (Suc (length [ext_down]))
              (fst (get_publisher (now ext_up)
                      (INITIALIZER_TOPIC K0 @ COMPLETE_TOPOLOGY_REQUEST_EVENT K0)
                      (publishers agent0)),
               CompleteTopologyRequestEvent)"
    by blast+
  moreover from bootstrap_requests_unguarded[of K0 ext_up agent0 "[ext_up, ext_down]"]
  have "lookups (fst (calls (publish_complete_tenant_request_event K0) [ext_up, ext_down] agent0))
          = replicate (length [ext_up, ext_down])
              (INITIALIZER_TOPIC K0 @ COMPLETE_TENANT_REQUEST_EVENT K0)"
    by blast
  ultimately show ?thesis by (simp add: a b c c' numeral_2_eq_2)
qed

subsection \<open>Calls of \<open>get_publisher\<close> from several threads\<close>

lemma run_append: "run tp (xs @ ys) s = run tp ys (run tp xs s)"
  by (induction xs arbitrary: s) auto

lemma race_run_example:
  "run ''T'' race_schedule (race_init 2)
     = \<lparr>registry = [''T'' \<mapsto> 1],
        objects = [\<lparr>topic = ''T'', start_time = 101\<rparr>, \<lparr>topic = ''T'', start_time = 102\<rparr>],
        pcs = [Returned 0, Returned 1]\<rparr>"
  by (simp add: race_schedule_def race_init_def step_def Let_def EventPublisher_init_def
      numeral_2_eq_2)

lemma list_all_update: "list_all P xs \<Longrightarrow> P y \<Longrightarrow> list_all P (xs[i := y])"
  by (induction xs arbitrary: i) (auto split: nat.splits)

lemma pc_sound_pcs: "pc_sound tp (s\<lparr>pcs := q\<rparr>) p = pc_sound tp s p"
  by (cases p) auto

lemma pc_sound_grow:
  "pc_sound tp s p \<Longrightarrow>
   pc_sound tp (s\<lparr>registry := (registry s)(tp \<mapsto> a), objects := objects s @ [ob], pcs := q\<rparr>) p"
  by (cases p) (auto simp: nth_append)

lemma list_all_pc_sound_pcs:
  "list_all (pc_sound tp (s\<lparr>pcs := q\<rparr>)) xs = list_all (pc_sound tp s) xs"
  by (induction xs) (auto simp: pc_sound_pcs)

lemma list_all_pc_sound_grow:
  "list_all (pc_sound tp s) xs \<Longrightarrow>
   list_all (pc_sound tp (s\<lparr>registry := (registry s)(tp \<mapsto> a), objects := objects s @ [ob],
                            pcs := q\<rparr>)) xs"
  by (induction xs) (auto simp: pc_sound_grow)

lemma registry_sound_pcs_update:
  assumes "registry_sound tp s" and "pc_sound tp s v"
  shows "registry_sound tp (s\<lparr>pcs := (pcs s)[i := v]\<rparr>)"
proof -
  from assms(1) have all: "list_all (pc_sound tp s) (pcs s)"
    by (simp add: registry_sound_def)
  from list_all_update[OF all assms(2), of i]
  have "list_all (pc_sound tp (s\<lparr>pcs := (pcs s)[i := v]\<rparr>)) ((pcs s)[i := v])"
    by (simp add: list_all_pc_sound_pcs)
  with assms(1) show ?thesis
    by (auto simp add: registry_sound_def split: option.splits)
qed

lemma registry_sound_store:
  assumes "registry_sound tp s"
  shows "registry_sound tp
           (s\<lparr>registry := (registry s)(tp \<mapsto> length (objects s)),
              objects := objects s @ [EventPublisher_init t tp],
              pcs := (pcs s)[i := At_return]\<rparr>)"
proof -
  let ?s' = "s\<lparr>registry := (registry s)(tp \<mapsto> length (objects s)),
                 objects := objects s @ [EventPublisher_init t tp],
                 pcs := (pcs s)[i := At_return]\<rparr>"
  from assms have all: "list_all (pc_sound tp s) (pcs s)"
    by (simp add: registry_sound_def)
  have a: "list_all (pc_sound tp ?s') (pcs s)"
    by (rule list_all_pc_sound_grow[OF all])
  have b: "pc_sound tp ?s' At_return" by simp
  have pc: "pcs ?s' = (pcs s)[i := At_return]" by simp
  have c: "list_all (pc_sound tp ?s') (pcs ?s')"
    by (subst pc) (rule list_all_update[OF a b])
  have d: "registry ?s' tp = Some (length (objects s))" by simp
  have e: "length (objects s) < length (objects ?s')
           \<and> topic (objects ?s' ! length (objects s)) = tp"
    by (simp add: EventPublisher_init_def)
  from c d e show ?thesis unfolding registry_sound_def by simp
qed

lemma step_sound:
  assumes "registry_sound tp s"
  shows "registry_sound tp (step tp x s)"
proof (cases "fst x < length (pcs s)")
  case False
  with assms show ?thesis by (simp add: step_def Let_def)
next
  case True
  show ?thesis
  proof (cases "pcs s ! fst x")
    case At_test
    have v: "pc_sound tp s (if registry s tp = None then At_store else At_return)" by simp
    have "step tp x s
            = s\<lparr>pcs := (pcs s)[fst x := (if registry s tp = None then At_store else At_return)]\<rparr>"
      using True At_test by (simp add: step_def Let_def)
    with registry_sound_pcs_update[OF assms v, of "fst x"] show ?thesis by simp
  next
    case At_store
    have "step tp x s
            = s\<lparr>registry := (registry s)(tp \<mapsto> length (objects s)),
                objects := objects s @ [EventPublisher_init (snd x) tp],
                pcs := (pcs s)[fst x := At_return]\<rparr>"
      using True At_store by (simp add: step_def Let_def)
    with registry_sound_store[OF assms, where t = "snd x" and i = "fst x"] show ?thesis by simp
  next
    case At_return
    from assms have all: "list_all (pc_sound tp s) (pcs s)"
      by (simp add: registry_sound_def)
    with True have "pc_sound tp s (pcs s ! fst x)" by (simp add: list_all_length)
    with At_return have "pc_sound tp s At_return" by simp
    then obtain a where a: "registry s tp = Some a" by auto
    with assms have v: "pc_sound tp s (Returned a)" by (simp add: registry_sound_def)
    have "step tp x s = s\<lparr>pcs := (pcs s)[fst x := Returned a]\<rparr>"
      using True At_return a by (simp add: step_def Let_def)
    with registry_sound_pcs_update[OF assms v, of "fst x"] show ?thesis by simp
  next
    case (Returned a)
    with assms True show ?thesis by (simp add: step_def Let_def)
  next
    case Raised_KeyError
    with assms True show ?thesis by (simp add: step_def Let_def)
  qed
qed

lemma run_sound: "registry_sound tp s \<Longrightarrow> registry_sound tp (run tp sched s)"
  by (induction sched arbitrary: s) (auto simp: step_sound)

lemma race_init_sound: "registry_sound tp (race_init n)"
  by (simp add: registry_sound_def race_init_def list_all_length)

lemma call_present:
  assumes "i < length (pcs s)" and "pcs s ! i = At_test" and "registry s tp = Some a"
  shows "run tp [(i, t), (i, t), (i, t)] s = s\<lparr>pcs := (pcs s)[i := Returned a]\<rparr>"
  using assms by (simp add: step_def Let_def)

lemma call_absent:
  assumes "i < length (pcs s)" and "pcs s ! i = At_test" and "registry s tp = None"
  shows "run tp [(i, t), (i, t), (i, t)] s =
           s\<lparr>registry := (registry s)(tp \<mapsto> length (objects s)),
             objects := objects s @ [EventPublisher_init t tp],
             pcs := (pcs s)[i := Returned (length (objects s))]\<rparr>"
  using assms by (simp add: step_def Let_def)

lemma serial_present:
  assumes "registry s tp = Some a"
    and "distinct (map fst order)"
    and "\<forall>x\<in>set order. fst x < length (pcs s) \<and> pcs s ! fst x = At_test"
  shows "registry (run tp (serial order) s) = registry s
       \<and> objects (run tp (serial order) s) = objects s
       \<and> length (pcs (run tp (serial order) s)) = length (pcs s)
       \<and> (\<forall>x\<in>set order. pcs (run tp (serial order) s) ! fst x = Returned a)
       \<and> (\<forall>j. j \<notin> fst ` set order \<longrightarrow> pcs (run tp (serial order) s) ! j = pcs s ! j)"
  using assms
proof (induction order arbitrary: s)
  case Nil
  then show ?case by simp
next
  case (Cons x order)
  obtain i t where x: "x = (i, t)" by (cases x)
  let ?s1 = "s\<lparr>pcs := (pcs s)[i := Returned a]\<rparr>"
  from Cons.prems x have i: "i < length (pcs s)" and at: "pcs s ! i = At_test" by auto
  have r1: "run tp [(i, t), (i, t), (i, t)] s = ?s1"
    by (rule call_present[OF i at Cons.prems(1)])
  have eq: "run tp (serial (x # order)) s = run tp (serial order) ?s1"
    using r1 x by simp
  from Cons.prems x have ni: "i \<notin> fst ` set order" and d: "distinct (map fst order)"
    by auto
  have p1: "registry ?s1 tp = Some a" using Cons.prems(1) by simp
  have p3: "\<forall>y\<in>set order. fst y < length (pcs ?s1) \<and> pcs ?s1 ! fst y = At_test"
  proof
    fix y assume y: "y \<in> set order"
    with ni have "fst y \<noteq> i" by auto
    with Cons.prems(3) y show "fst y < length (pcs ?s1) \<and> pcs ?s1 ! fst y = At_test"
      by simp
  qed
  note ih = Cons.IH[OF p1 d p3]
  from ih ni i have here: "pcs (run tp (serial order) ?s1) ! i = Returned a"
    by simp
  have rest: "\<forall>j. j \<notin> fst ` set (x # order) \<longrightarrow>
                pcs (run tp (serial order) ?s1) ! j = pcs s ! j"
  proof (intro allI impI)
    fix j assume j: "j \<notin> fst ` set (x # order)"
    with x have "j \<noteq> i" and "j \<notin> fst ` set order" by auto
    with ih show "pcs (run tp (serial order) ?s1) ! j = pcs s ! j" by simp
  qed
  from ih here rest x show ?case unfolding eq by simp
qed

lemma serial_init:
  assumes "distinct (map fst ((i, t) # order))"
    and "\<forall>x\<in>set ((i, t) # order). fst x < n"
  shows "objects (run tp (serial ((i, t) # order)) (race_init n)) = [EventPublisher_init t tp]
       \<and> registry (run tp (serial ((i, t) # order)) (race_init n)) tp = Some 0
       \<and> (\<forall>x\<in>set ((i, t) # order).
             pcs (run tp (serial ((i, t) # order)) (race_init n)) ! fst x = Returned 0)"
proof -
  define s1 where "s1 = \<lparr>registry = [tp \<mapsto> (0::nat)], objects = [EventPublisher_init t tp],
                          pcs = (replicate n At_test)[i := Returned 0]\<rparr>"
  from assms(2) have i: "i < n" by simp
  have r1: "run tp [(i, t), (i, t), (i, t)] (race_init n) = s1"
    using i by (simp add: step_def Let_def race_init_def s1_def)
  have eq: "run tp (serial ((i, t) # order)) (race_init n) = run tp (serial order) s1"
    using r1 by simp
  from assms(1) have ni: "i \<notin> fst ` set order" and d: "distinct (map fst order)" by auto
  have p1: "registry s1 tp = Some 0" by (simp add: s1_def)
  have ob1: "objects s1 = [EventPublisher_init t tp]" by (simp add: s1_def)
  have pi: "pcs s1 ! i = Returned 0" using i by (simp add: s1_def)
  have p3: "\<forall>y\<in>set order. fst y < length (pcs s1) \<and> pcs s1 ! fst y = At_test"
  proof
    fix y assume y: "y \<in> set order"
    with ni have "fst y \<noteq> i" by auto
    moreover from assms(2) y have "fst y < n" by simp
    ultimately show "fst y < length (pcs s1) \<and> pcs s1 ! fst y = At_test"
      by (simp add: s1_def)
  qed
  note sp = serial_present[OF p1 d p3]
  from sp have a: "objects (run tp (serial order) s1) = [EventPublisher_init t tp]"
    using ob1 by simp
  from sp have b: "registry (run tp (serial order) s1) tp = Some 0"
    using p1 by simp
  from sp have c: "\<forall>x\<in>set order. pcs (run tp (serial order) s1) ! fst x = Returned 0"
    by blast
  from sp ni have "pcs (run tp (serial order) s1) ! i = pcs s1 ! i" by blast
  with pi have e: "pcs (run tp (serial order) s1) ! i = Returned 0" by simp
  from a b c e show ?thesis unfolding eq by simp
qed

lemma solo_call:
  assumes "j < length (pcs s)" and "pcs s ! j = At_test" and "registry_sound tp s"
  shows "(\<exists>a. pcs (run tp [(j, u), (j, u), (j, u)] s) ! j = Returned a
              \<and> objects (run tp [(j, u), (j, u), (j, u)] s) ! a
                  = fst (get_publisher u tp (published s)))
       \<and> published (run tp [(j, u), (j, u), (j, u)] s) tp
           = Some (fst (get_publisher u tp (published s)))"
proof (cases "registry s tp")
  case None
  then have g: "fst (get_publisher u tp (published s)) = EventPublisher_init u tp"
    by (simp add: get_publisher_def published_def Let_def)
  from call_absent[OF assms(1) assms(2) None, of u] assms(1) g show ?thesis
    by (simp add: published_def)
next
  case (Some a)
  then have g: "fst (get_publisher u tp (published s)) = objects s ! a"
    by (simp add: get_publisher_def published_def)
  from call_present[OF assms(1) assms(2) Some, of u] assms(1) g Some show ?thesis
    by (simp add: published_def)
qed

text \<open>
  Counterexample to C8 as stated: two threads call \<open>get_publisher\<close> with the same topic;
  both run the membership test before either stores. Each then constructs a publisher
  (two objects for the one topic), the second store replaces the first, and the two
  calls return different objects.
\<close>

theorem concurrent_get_publisher_counterexample:
  "pcs (run ''T'' race_schedule (race_init 2)) = [Returned 0, Returned 1]
   \<and> objects (run ''T'' race_schedule (race_init 2))
       = [\<lparr>topic = ''T'', start_time = 101\<rparr>, \<lparr>topic = ''T'', start_time = 102\<rparr>]"
  by (simp add: race_run_example)

text \<open>
  C8, amended: calls of \<open>get_publisher\<close> with the same topic from distinct threads that
  do not overlap (each runs its statements in one piece) all return the identical
  object, the one the first call constructed and stamped with its clock, and only that
  one object is constructed. Under every interleaving of the statements the dictionary
  stays sound: its entry for the topic is a constructed publisher of that topic, every
  call that has returned has returned such a publisher, and no call raises KeyError.
  A call that runs in one piece, from any sound state, returns the publisher that
  \<open>get_publisher\<close> returns on the dictionary of that state, and leaves it stored under
  the topic. (Calls that overlap may construct one publisher each and return different
  ones.)
\<close>

theorem get_publisher_threads:
  "(distinct (map fst ((i, t) # order)) \<and> (\<forall>x\<in>set ((i, t) # order). fst x < n) \<longrightarrow>
      objects (run tp (serial ((i, t) # order)) (race_init n))
        = [fst (get_publisher t tp Map.empty)]
      \<and> registry (run tp (serial ((i, t) # order)) (race_init n)) tp = Some 0
      \<and> (\<forall>x\<in>set ((i, t) # order).
            pcs (run tp (serial ((i, t) # order)) (race_init n)) ! fst x = Returned 0))
   \<and> registry_sound tp (run tp sched (race_init n))
   \<and> (j < length (pcs s) \<and> pcs s ! j = At_test \<and> registry_sound tp s \<longrightarrow>
        (\<exists>a. pcs (run tp [(j, u), (j, u), (j, u)] s) ! j = Returned a
              \<and> objects (run tp [(j, u), (j, u), (j, u)] s) ! a
                  = fst (get_publisher u tp (published s)))
        \<and> published (run tp [(j, u), (j, u), (j, u)] s) tp
            = Some (fst (get_publisher u tp (published s))))"
proof -
  have g: "fst (get_publisher t tp Map.empty) = EventPublisher_init t tp"
    by (simp add: get_publisher_def Let_def)
  have a: "distinct (map fst ((i, t) # order)) \<and> (\<forall>x\<in>set ((i, t) # order). fst x < n) \<longrightarrow>
      objects (run tp (serial ((i, t) # order)) (race_init n))
        = [fst (get_publisher t tp Map.empty)]
      \<and> registry (run tp (serial ((i, t) # order)) (race_init n)) tp = Some 0
      \<and> (\<forall>x\<in>set ((i, t) # order).
            pcs (run tp (serial ((i, t) # order)) (race_init n)) ! fst x = Returned 0)"
    using serial_init[of i t order n tp] g by simp
  have b: "registry_sound tp (run tp sched (race_init n))"
    by (rule run_sound[OF race_init_sound])
  have c: "j < length (pcs s) \<and> pcs s ! j = At_test \<and> registry_sound tp s \<longrightarrow>
        (\<exists>a. pcs (run tp [(j, u), (j, u), (j, u)] s) ! j = Returned a
              \<and> objects (run tp [(j, u), (j, u), (j, u)] s) ! a
                  = fst (get_publisher u tp (published s)))
        \<and> published (run tp [(j, u), (j, u), (j, u)] s) tp
            = Some (fst (get_publisher u tp (published s)))"
    using solo_call[of j s tp u] by blast
  from a b c show ?thesis by blast
qed

text \<open>
  Witness for C8: two threads whose calls do not overlap, at seconds 100 and 200, both
  return object 0, stamped 100; and the dictionary is sound after the overlapping
  schedule of the counterexample.
\<close>

theorem get_publisher_threads_witness:
  "distinct (map fst [(0::nat, 100::int), (1, 200)])
   \<and> (0::nat) < 2 \<and> (1::nat) < 2
   \<and> objects (run ''T'' (serial [(0, 100), (1, 200)]) (race_init 2))
       = [\<lparr>topic = ''T'', start_time = 100\<rparr>]
   \<and> pcs (run ''T'' (serial [(0, 100), (1, 200)]) (race_init 2)) ! 0 = Returned 0
   \<and> pcs (run ''T'' (serial [(0, 100), (1, 200)]) (race_init 2)) ! 1 = Returned 0
   \<and> registry_sound ''T'' (run ''T'' race_schedule (race_init 2))
   \<and> 0 < length (pcs (race_init 2)) \<and> pcs (race_init 2) ! 0 = At_test
   \<and> registry_sound ''T'' (race_init 2)
   \<and> published (run ''T'' [(0, 100), (0, 100), (0, 100)] (race_init 2)) ''T''
       = Some \<lparr>topic = ''T'', start_time = 100\<rparr>"
proof -
  have h1: "0 < length (pcs (race_init 2)) \<and> pcs (race_init 2) ! 0 = At_test"
    by (simp add: race_init_def)
  have h2: "registry_sound ''T'' (race_init 2)" by (rule race_init_sound)
  have g0: "fst (get_publisher 100 ''T'' (published (race_init 2)))
              = \<lparr>topic = ''T'', start_time = 100\<rparr>"
    by (simp add: get_publisher_def EventPublisher_init_def Let_def published_def race_init_def)
  from get_publisher_threads[of 0 100 "[]" 2 "''T''" "[]" 0 "race_init 2" 100] h1 h2
  have "published (run ''T'' [(0, 100), (0, 100), (0, 100)] (race_init 2)) ''T''
          = Some (fst (get_publisher 100 ''T'' (published (race_init 2))))"
    by blast
  with g0 have solo: "published (run ''T'' [(0, 100), (0, 100), (0, 100)] (race_init 2)) ''T''
       = Some \<lparr>topic = ''T'', start_time = 100\<rparr>" by simp
  have d: "distinct (map fst [(0::nat, 100::int), (1, 200)])" by simp
  have b: "\<forall>x\<in>set [(0::nat, 100::int), (1, 200)]. fst x < 2" by simp
  have g: "fst (get_publisher 100 ''T'' Map.empty) = \<lparr>topic = ''T'', start_time = 100\<rparr>"
    by (simp add: get_publisher_def EventPublisher_init_def Let_def)
  from get_publisher_threads[of 0 100 "[(1, 200)]" 2 "''T''" race_schedule 0 "race_init 2" 100] d b
  have "objects (run ''T'' (serial [(0, 100), (1, 200)]) (race_init 2))
          = [fst (get_publisher 100 ''T'' Map.empty)]
        \<and> (\<forall>x\<in>set [(0::nat, 100::int), (1, 200)].
              pcs (run ''T'' (serial [(0, 100), (1, 200)]) (race_init 2)) ! fst x = Returned 0)
        \<and> registry_sound ''T'' (run ''T'' race_schedule (race_init 2))"
    by blast
  with d g h1 h2 solo show ?thesis by simp
qed

end
